theory Spec2Isabelle
  imports Main
begin

section \<open>link-dl: link extraction, file naming and download bookkeeping\<close>

text \<open>
  A shallow embedding of \<^verbatim>\<open>main.go\<close>. Go strings are byte sequences, so a string is a
  \<^typ>\<open>string\<close> (a list of 8-bit characters) and \<^verbatim>\<open>len\<close> is \<^const>\<open>length\<close>. Path
  functions are the Unix ones (separator \<^verbatim>\<open>/\<close>).

  Go's \<^verbatim>\<open>int\<close> is the 64-bit signed integer of the usual platforms. It is modelled by
  an \<^typ>\<open>int\<close> in the range from \<open>-2^63\<close> to \<open>2^63 - 1\<close>, and every increment of the
  code wraps around explicitly (\<open>wrap_int\<close> below).
\<close>

subsection \<open>Errors\<close>

text \<open>
  Every error value the program can produce, and the run-time panics of the code (a
  slice bound out of range in \<^verbatim>\<open>sanitizeFilename\<close>, a negative channel size in
  \<^verbatim>\<open>downloadAll\<close>). The string carried by a library error is the library's message.
\<close>

datatype error =
    RequestError string     \<comment> \<open>\<^verbatim>\<open>http.NewRequest\<close> failed\<close>
  | TransportError string   \<comment> \<open>\<^verbatim>\<open>client.Do\<close> failed\<close>
  | HTTPStatus int          \<comment> \<open>\<^verbatim>\<open>fmt.Errorf("HTTP %d", resp.StatusCode)\<close>\<close>
  | DocumentError string    \<comment> \<open>\<^verbatim>\<open>goquery.NewDocumentFromReader\<close> failed\<close>
  | URLParseError string    \<comment> \<open>\<^verbatim>\<open>url.Parse\<close> failed\<close>
  | InvalidPattern string   \<comment> \<open>\<^verbatim>\<open>fmt.Errorf("invalid include pattern: %v", err)\<close>\<close>
  | CreateError string      \<comment> \<open>\<^verbatim>\<open>os.Create\<close> failed\<close>
  | CopyError string        \<comment> \<open>\<^verbatim>\<open>io.Copy\<close> failed\<close>
  | MkdirError string       \<comment> \<open>\<^verbatim>\<open>os.MkdirAll\<close> failed\<close>
  | SliceBoundsPanic int    \<comment> \<open>panic: slice bounds out of range \<^verbatim>\<open>[:n]\<close>\<close>
  | MakeChanPanic int       \<comment> \<open>panic: makechan: size out of range\<close>

subsection \<open>Library functions on byte strings\<close>

definition slash :: char where
  "slash = CHR 0x2F"

definition dot :: char where
  "dot = CHR 0x2E"

definition underscore :: char where
  "underscore = CHR 0x5F"

definition is_ascii :: "char \<Rightarrow> bool" where
  "is_ascii c = ((of_char c :: nat) < 128)"

definition ascii_lower :: "char \<Rightarrow> char" where
  "ascii_lower c =
     (if (65::nat) \<le> of_char c \<and> (of_char c :: nat) \<le> 90
      then char_of ((of_char c :: nat) + 32) else c)"

text \<open>
  \<^verbatim>\<open>strings.HasPrefix\<close>, \<^verbatim>\<open>strings.HasSuffix\<close>, \<^verbatim>\<open>strings.TrimPrefix\<close> and
  \<^verbatim>\<open>strings.TrimSuffix\<close>.
\<close>

definition HasPrefix :: "string \<Rightarrow> string \<Rightarrow> bool" where
  "HasPrefix s p = (take (length p) s = p)"

definition HasSuffix :: "string \<Rightarrow> string \<Rightarrow> bool" where
  "HasSuffix s suf = (length suf \<le> length s \<and> drop (length s - length suf) s = suf)"

definition TrimPrefix :: "string \<Rightarrow> string \<Rightarrow> string" where
  "TrimPrefix s p = (if HasPrefix s p then drop (length p) s else s)"

definition TrimSuffix :: "string \<Rightarrow> string \<Rightarrow> string" where
  "TrimSuffix s suf = (if HasSuffix s suf then take (length s - length suf) s else s)"

text \<open>
  \<^verbatim>\<open>strings.Trim(s, cutset)\<close> for a cutset of ASCII characters: bytes of the cutset are
  removed from both ends.
\<close>

definition Trim :: "string \<Rightarrow> string \<Rightarrow> string" where
  "Trim s cutset =
     rev (dropWhile (\<lambda>c. c \<in> set cutset) (rev (dropWhile (\<lambda>c. c \<in> set cutset) s)))"

text \<open>
  \<^verbatim>\<open>filepath.Ext\<close>: scanning from the end and stopping at a separator, the suffix that
  starts at the first dot met; empty when there is none. The first argument is the
  reversed path still to scan, the second the suffix already passed.
\<close>

fun ext_scan :: "string \<Rightarrow> string \<Rightarrow> string" where
  "ext_scan [] acc = []"
| "ext_scan (c # cs) acc =
     (if c = slash then []
      else if c = dot then c # acc
      else ext_scan cs (c # acc))"

definition filepath_Ext :: "string \<Rightarrow> string" where
  "filepath_Ext path = ext_scan (rev path) []"

text \<open>
  \<^verbatim>\<open>filepath.Base\<close>: the last element of the path, after trailing separators are removed;
  \<^verbatim>\<open>"."\<close> for the empty path and \<^verbatim>\<open>"/"\<close> for a path of separators only.
\<close>

definition filepath_Base :: "string \<Rightarrow> string" where
  "filepath_Base path =
     (if path = [] then [dot]
      else let stripped = rev (dropWhile (\<lambda>c. c = slash) (rev path));
               last_elem = rev (takeWhile (\<lambda>c. c \<noteq> slash) (rev stripped))
           in if last_elem = [] then [slash] else last_elem)"

subsection \<open>Unicode-aware library functions\<close>

text \<open>
  \<^verbatim>\<open>strings.ToLower\<close> maps \<^verbatim>\<open>A\<close>..\<^verbatim>\<open>Z\<close> to \<^verbatim>\<open>a\<close>..\<^verbatim>\<open>z\<close> when every byte of the string is
  ASCII. Otherwise it lowers rune by rune with the Unicode tables, which are not part of
  this program: that case is the parameter \<open>unicode_lower\<close>.
\<close>

definition ToLower :: "(string \<Rightarrow> string) \<Rightarrow> string \<Rightarrow> string" where
  "ToLower unicode_lower s = (if list_all is_ascii s then map ascii_lower s else unicode_lower s)"

text \<open>
  \<^verbatim>\<open>strings.TrimSpace\<close> removes the runes of \<^verbatim>\<open>unicode.IsSpace\<close> from both ends: the six
  ASCII ones and, in UTF-8, U+0085, U+00A0, U+1680, U+2000 to U+200A, U+2028, U+2029,
  U+202F, U+205F and U+3000.
\<close>

definition space_runes :: "string list" where
  "space_runes =
     [[CHR 0x09], [CHR 0x0A], [CHR 0x0B], [CHR 0x0C], [CHR 0x0D], [CHR 0x20],
      [CHR 0xC2, CHR 0x85], [CHR 0xC2, CHR 0xA0], [CHR 0xE1, CHR 0x9A, CHR 0x80],
      [CHR 0xE2, CHR 0x80, CHR 0x80], [CHR 0xE2, CHR 0x80, CHR 0x81],
      [CHR 0xE2, CHR 0x80, CHR 0x82], [CHR 0xE2, CHR 0x80, CHR 0x83],
      [CHR 0xE2, CHR 0x80, CHR 0x84], [CHR 0xE2, CHR 0x80, CHR 0x85],
      [CHR 0xE2, CHR 0x80, CHR 0x86], [CHR 0xE2, CHR 0x80, CHR 0x87],
      [CHR 0xE2, CHR 0x80, CHR 0x88], [CHR 0xE2, CHR 0x80, CHR 0x89],
      [CHR 0xE2, CHR 0x80, CHR 0x8A], [CHR 0xE2, CHR 0x80, CHR 0xA8],
      [CHR 0xE2, CHR 0x80, CHR 0xA9], [CHR 0xE2, CHR 0x80, CHR 0xAF],
      [CHR 0xE2, CHR 0x81, CHR 0x9F], [CHR 0xE3, CHR 0x80, CHR 0x80]]"

text \<open>The first of the given byte sequences, none of them empty, that the string starts with.\<close>

definition leading_rune :: "string list \<Rightarrow> string \<Rightarrow> string option" where
  "leading_rune runes s = find (\<lambda>r. r \<noteq> [] \<and> HasPrefix s r) runes"

function strip_leading :: "string list \<Rightarrow> string \<Rightarrow> string" where
  "strip_leading runes s =
     (case leading_rune runes s of
        None \<Rightarrow> s
      | Some r \<Rightarrow> strip_leading runes (drop (length r) s))"
  by pat_completeness auto
termination
proof (relation "measure (\<lambda>(runes, s). length s)")
  show "wf (measure (\<lambda>(runes, s). length s))" by simp
next
  fix runes :: "string list" and s r :: string
  assume "leading_rune runes s = Some r"
  then have "r \<noteq> []" and "take (length r) s = r"
    by (auto simp: leading_rune_def HasPrefix_def find_Some_iff)
  then have "s \<noteq> []" and "0 < length r" by auto
  then show "((runes, drop (length r) s), (runes, s)) \<in> measure (\<lambda>(runes, s). length s)"
    by simp
qed

definition TrimSpace :: "string \<Rightarrow> string" where
  "TrimSpace s = rev (strip_leading (map rev space_runes) (rev (strip_leading space_runes s)))"

text \<open>\<^verbatim>\<open>strings.Split(s, sep)\<close> for a separator of one byte.\<close>

fun Split :: "string \<Rightarrow> char \<Rightarrow> string list" where
  "Split [] sep = [[]]"
| "Split (c # cs) sep =
     (if c = sep then [] # Split cs sep
      else (case Split cs sep of [] \<Rightarrow> [[c]] | piece # pieces \<Rightarrow> (c # piece) # pieces))"

subsection \<open>sanitizeFilename\<close>

text \<open>
  The character class \<^verbatim>\<open>[<>:"/\\|?*\x00-\x1f]\<close>. Go's regexp engine decodes UTF-8, but every
  byte of a multi-byte sequence and every invalid byte is at least 0x80 and so outside
  the class: replacing byte by byte is what \<^verbatim>\<open>ReplaceAllString\<close> does.
\<close>

definition invalid_char :: "char \<Rightarrow> bool" where
  "invalid_char c =
     (c \<in> {CHR 0x3C, CHR 0x3E, CHR 0x3A, CHR 0x22, CHR 0x2F, CHR 0x5C, CHR 0x7C, CHR 0x3F, CHR 0x2A}
      \<or> (of_char c :: nat) \<le> 0x1F)"

definition replace_invalid :: "string \<Rightarrow> string" where
  "replace_invalid name = map (\<lambda>c. if invalid_char c then underscore else c) name"

text \<open>
  The class \<^verbatim>\<open>[\s_]\<close>, where Go's \<^verbatim>\<open>\s\<close> is \<^verbatim>\<open>[\t\n\f\r ]\<close>; \<^verbatim>\<open>[\s_]+\<close> matches a maximal
  run, and each run is replaced by one underscore.
\<close>

definition space_or_underscore :: "char \<Rightarrow> bool" where
  "space_or_underscore c =
     (c \<in> {CHR 0x09, CHR 0x0A, CHR 0x0C, CHR 0x0D, CHR 0x20, CHR 0x5F})"

function collapse_runs :: "string \<Rightarrow> string" where
  "collapse_runs [] = []"
| "collapse_runs (c # cs) =
     (if space_or_underscore c
      then underscore # collapse_runs (dropWhile space_or_underscore cs)
      else c # collapse_runs cs)"
  by pat_completeness auto
termination
  by (relation "measure length") (auto simp: le_imp_less_Suc length_dropWhile_le)

text \<open>
  \<^verbatim>\<open>name[:200-len(ext)]\<close> panics when the bound is negative; the bound cannot exceed
  \<^verbatim>\<open>len(name)\<close> here, since the branch is taken only when \<^verbatim>\<open>len(name) > 200\<close>.
\<close>

definition limit_length :: "string \<Rightarrow> error + string" where
  "limit_length name =
     (if length name > 200
      then let ext = filepath_Ext name;
               bound = 200 - int (length ext)
           in if bound < 0 then Inl (SliceBoundsPanic bound)
              else Inr (take (nat bound) name @ ext)
      else Inr name)"

definition sanitizeFilename :: "string \<Rightarrow> error + string" where
  "sanitizeFilename name =
     (case limit_length (Trim (collapse_runs (replace_invalid name)) [CHR 0x20, dot, underscore]) of
        Inl e \<Rightarrow> Inl e
      | Inr limited \<Rightarrow> Inr (if limited = [] then ''unnamed'' else limited))"

subsection \<open>getUniqueFilename\<close>

text \<open>\<^verbatim>\<open>%d\<close> of \<^verbatim>\<open>fmt.Sprintf\<close>: the decimal digits, after a minus sign for a negative number.\<close>

definition digit_char :: "nat \<Rightarrow> char" where
  "digit_char d = char_of (48 + d)"

fun show_nat :: "nat \<Rightarrow> string" where
  "show_nat n =
     (if n < 10 then [digit_char n] else show_nat (n div 10) @ [digit_char (n mod 10)])"

declare show_nat.simps [simp del]

definition show_int :: "int \<Rightarrow> string" where
  "show_int i = (if i < 0 then CHR 0x2D # show_nat (nat (- i)) else show_nat (nat i))"

text \<open>\<^verbatim>\<open>fmt.Sprintf("%s_%d%s", nameWithoutExt, i, ext)\<close>.\<close>

definition numbered :: "string \<Rightarrow> int \<Rightarrow> string \<Rightarrow> string" where
  "numbered nameWithoutExt i ext = nameWithoutExt @ [underscore] @ show_int i @ ext"

text \<open>
  What \<^verbatim>\<open>os.Stat(filepath.Join(dir, name))\<close> answers, as a function of \<^verbatim>\<open>dir\<close> and
  \<^verbatim>\<open>name\<close>: the file is there, \<^verbatim>\<open>os.IsNotExist(err)\<close> holds, or \<^verbatim>\<open>Stat\<close> failed with another
  error (a directory that cannot be searched, a name that is too long). The code tests
  \<^verbatim>\<open>os.IsNotExist(err)\<close> only.
\<close>

datatype stat_result = Found | NotExist | StatFailed

type_synonym filesystem = "string \<Rightarrow> string \<Rightarrow> stat_result"

text \<open>
  The result of an addition in Go's \<^verbatim>\<open>int\<close>: the two's complement value of the low 64
  bits, so that the successor of \<open>2^63 - 1\<close> is \<open>-2^63\<close>.
\<close>

definition wrap_int :: "int \<Rightarrow> int" where
  "wrap_int x = (x + 2 ^ 63) mod 2 ^ 64 - 2 ^ 63"

text \<open>
  The loop \<^verbatim>\<open>for i := count + 1; ; i++\<close>, entered with the value of \<^verbatim>\<open>count + 1\<close>. It has no
  exit but the \<^verbatim>\<open>return\<close>, so the model is a partial function: \<^const>\<open>None\<close> stands for a
  search that never returns.
\<close>

partial_function (option) find_available ::
  "filesystem \<Rightarrow> string \<Rightarrow> string \<Rightarrow> string \<Rightarrow> int \<Rightarrow> string option" where
  "find_available stat dir nameWithoutExt ext i =
     (if stat dir (numbered nameWithoutExt i ext) = NotExist
      then Some (numbered nameWithoutExt i ext)
      else find_available stat dir nameWithoutExt ext (wrap_int (i + 1)))"

declare find_available.simps [code]

text \<open>A Go map read at a missing key yields the zero value.\<close>

definition lookup_count :: "(string \<rightharpoonup> int) \<Rightarrow> string \<Rightarrow> int" where
  "lookup_count usedNames base = (case usedNames base of None \<Rightarrow> 0 | Some n \<Rightarrow> n)"

text \<open>
  \<^verbatim>\<open>getUniqueFilename\<close> updates the map in place before it searches; the model returns the
  name together with the updated map.
\<close>

definition getUniqueFilename ::
  "filesystem \<Rightarrow> string \<Rightarrow> string \<Rightarrow> (string \<rightharpoonup> int) \<Rightarrow> (string \<times> (string \<rightharpoonup> int)) option" where
  "getUniqueFilename stat dir name usedNames =
     (let base = name;
          ext = filepath_Ext name;
          nameWithoutExt = TrimSuffix name ext;
          count = lookup_count usedNames base;
          usedNames' = usedNames(base \<mapsto> wrap_int (count + 1))
      in if count = 0 \<and> stat dir name = NotExist then Some (name, usedNames')
         else map_option (\<lambda>newName. (newName, usedNames'))
                (find_available stat dir nameWithoutExt ext (wrap_int (count + 1))))"

subsection \<open>The download phase\<close>

text \<open>
  \<^verbatim>\<open>downloadAll\<close> starts one goroutine per link. Each goroutine takes the mutex, calls
  \<^verbatim>\<open>getUniqueFilename\<close> and releases the mutex; later its \<^verbatim>\<open>downloadFile\<close> creates the file
  under the name it was given. The calls under the mutex are serialised, so a run of
  the phase is a sequence of events: a request for a name, or the creation of the file
  of the \<open>k\<close>-th name handed out (an index no request has reached yet stands for no
  event; a download that fails before \<^verbatim>\<open>os.Create\<close> creates nothing and has no event).
  The state records the names under which files exist, those found at the start and
  those created since. What \<^verbatim>\<open>Stat\<close> answers when these files exist is a parameter of
  the run, \<open>stat\<close>: it stands for the file system with its path cleaning
  (\<^verbatim>\<open>filepath.Join\<close>), its permissions and its limits.
\<close>

record dl_state =
  usedNames :: "string \<rightharpoonup> int"
  files :: "string set"
  handed :: "string list"

datatype event = Request string | Written nat

definition step ::
  "(string set \<Rightarrow> filesystem) \<Rightarrow> string \<Rightarrow> dl_state \<Rightarrow> event \<Rightarrow> dl_state option" where
  "step stat dir s ev =
     (case ev of
        Request name \<Rightarrow>
          (case getUniqueFilename (stat (files s)) dir name (usedNames s) of
             None \<Rightarrow> None
           | Some (filename, used) \<Rightarrow>
               Some (s\<lparr>usedNames := used, handed := handed s @ [filename]\<rparr>))
      | Written k \<Rightarrow>
          (if k < length (handed s) then Some (s\<lparr>files := insert (handed s ! k) (files s)\<rparr>)
           else Some s))"

fun run ::
  "(string set \<Rightarrow> filesystem) \<Rightarrow> string \<Rightarrow> dl_state \<Rightarrow> event list \<Rightarrow> dl_state option" where
  "run stat dir s [] = Some s"
| "run stat dir s (ev # evs) =
     (case step stat dir s ev of None \<Rightarrow> None | Some s' \<Rightarrow> run stat dir s' evs)"

text \<open>The start of \<^verbatim>\<open>downloadAll\<close>: an empty map, and the directory as it is found.\<close>

definition start :: "string set \<Rightarrow> dl_state" where
  "start fs = \<lparr>usedNames = Map.empty, files = fs, handed = []\<rparr>"

text \<open>
  One file system: a directory that can be searched, in which \<^verbatim>\<open>Stat\<close> finds exactly the
  files of the set under their names and reports every other name as absent. It is what
  \<^verbatim>\<open>Stat\<close> answers for plain file names below the length limit of the file system; it is
  not what it answers for the empty name or for \<^verbatim>\<open>.\<close>, which \<^verbatim>\<open>filepath.Join\<close> maps to
  the directory itself, nor for names that are too long.
\<close>

definition stat_of :: "string set \<Rightarrow> filesystem" where
  "stat_of fs dir name = (if name \<in> fs then Found else NotExist)"

subsection \<open>Configuration\<close>

record FileLink =
  Name :: string
  LinkURL :: string

record Config =
  URL :: string
  OutDir :: string
  Parallel :: int
  Exts :: "string list"
  AllFiles :: bool
  Include :: string
  ListOnly :: bool
  UserAgent :: string

text \<open>The values of the flags after \<^verbatim>\<open>flag.Parse\<close>, with the defaults of \<^verbatim>\<open>parseFlags\<close>.\<close>

record flags =
  flag_out :: string
  flag_parallel :: int
  flag_ext :: string
  flag_all :: bool
  flag_include :: string
  flag_list :: bool
  flag_ua :: string

definition defaultUserAgent :: string where
  "defaultUserAgent =
     ''Mozilla/5.0 (Macintosh; Intel Mac OS X 10_15_7) AppleWebKit/537.36 (KHTML, like Gecko) Chrome/120.0.0.0 Safari/537.36''"

definition default_flags :: flags where
  "default_flags =
     \<lparr>flag_out = ''./downloads'', flag_parallel = 5, flag_ext = ''pdf,xlsx,xls,xlsm'',
      flag_all = False, flag_include = [], flag_list = False, flag_ua = defaultUserAgent\<rparr>"

text \<open>The loop of \<^verbatim>\<open>parseFlags\<close> that builds \<^verbatim>\<open>extensions\<close>.\<close>

definition parse_extensions :: "(string \<Rightarrow> string) \<Rightarrow> bool \<Rightarrow> string \<Rightarrow> string list" where
  "parse_extensions unicode_lower all exts =
     (if \<not> all \<and> exts \<noteq> []
      then concat (map (\<lambda>piece.
             let ext = TrimPrefix (TrimSpace piece) [dot]
             in if ext \<noteq> [] then [dot # ToLower unicode_lower ext] else [])
           (Split exts (CHR 0x2C)))
      else [])"

definition parseFlags :: "(string \<Rightarrow> string) \<Rightarrow> flags \<Rightarrow> string list \<Rightarrow> Config" where
  "parseFlags unicode_lower fl args =
     \<lparr>URL = (case args of [] \<Rightarrow> [] | arg # _ \<Rightarrow> arg),
      OutDir = flag_out fl,
      Parallel = flag_parallel fl,
      Exts = parse_extensions unicode_lower (flag_all fl) (flag_ext fl),
      AllFiles = flag_all fl,
      Include = flag_include fl,
      ListOnly = flag_list fl,
      UserAgent = flag_ua fl\<rparr>"

subsection \<open>The outside world\<close>

text \<open>An HTTP response as the code reads it: the status code and the body.\<close>

record response =
  StatusCode :: int
  Body :: string

text \<open>
  An anchor as the code reads it: the result of \<^verbatim>\<open>s.Attr("href")\<close> (\<^const>\<open>None\<close> when the
  attribute does not exist) and the result of \<^verbatim>\<open>s.Text()\<close>. A parsed URL as the code
  reads it: its \<^verbatim>\<open>Path\<close> field and the result of \<^verbatim>\<open>String()\<close>.
\<close>

record anchor =
  href :: "string option"
  anchor_text :: string

record url =
  Path :: string
  String_of :: string

text \<open>
  The network, the libraries and the operating system, as functions of what the code
  passes to them:
  \<^item> \<open>new_request u\<close>: the error of \<^verbatim>\<open>http.NewRequest("GET", u, nil)\<close>;
  \<^item> \<open>client_do t u ua\<close>: the result of \<^verbatim>\<open>client.Do(req)\<close> for a client with a timeout of
    \<open>t\<close> seconds, the URL \<open>u\<close> and the User-Agent \<open>ua\<close>;
  \<^item> \<open>new_document body\<close>: \<^verbatim>\<open>goquery.NewDocumentFromReader\<close>, followed by what
    \<^verbatim>\<open>doc.Find("a[href]")\<close> selects, in document order;
  \<^item> \<open>url_parse\<close>: \<^verbatim>\<open>url.Parse\<close>; \<open>url_resolve base h\<close>: \<^verbatim>\<open>baseURL.Parse(h)\<close>;
  \<^item> \<open>regexp_compile p\<close>: \<^verbatim>\<open>regexp.Compile(p)\<close>, giving the message of the error or the
    \<^verbatim>\<open>MatchString\<close> of the compiled pattern;
  \<^item> \<open>unicode_lower\<close>: \<^verbatim>\<open>strings.ToLower\<close> on a string with a non-ASCII byte;
  \<^item> \<open>mkdir_all\<close>, \<open>os_create\<close>: the errors of \<^verbatim>\<open>os.MkdirAll\<close> and \<^verbatim>\<open>os.Create\<close>;
  \<^item> \<open>io_copy body path\<close>: the error of \<^verbatim>\<open>io.Copy(out, resp.Body)\<close>.
\<close>

record env =
  new_request :: "string \<Rightarrow> error option"
  client_do :: "nat \<Rightarrow> string \<Rightarrow> string \<Rightarrow> error + response"
  new_document :: "string \<Rightarrow> error + anchor list"
  url_parse :: "string \<Rightarrow> error + url"
  url_resolve :: "url \<Rightarrow> string \<Rightarrow> error + url"
  regexp_compile :: "string \<Rightarrow> string + (string \<Rightarrow> bool)"
  unicode_lower :: "string \<Rightarrow> string"
  mkdir_all :: "string \<Rightarrow> error option"
  os_create :: "string \<Rightarrow> error option"
  io_copy :: "string \<Rightarrow> string \<Rightarrow> error option"

subsection \<open>downloadFile and the tally\<close>

text \<open>
  \<^verbatim>\<open>downloadFile\<close> returns the error (\<^const>\<open>None\<close> is Go's \<^verbatim>\<open>nil\<close>); the second component
  is the directory afterwards: the file is there once \<^verbatim>\<open>os.Create\<close> has succeeded, also
  when the copy fails. The client is given by its timeout in seconds.
\<close>

definition downloadFile ::
  "env \<Rightarrow> string set \<Rightarrow> nat \<Rightarrow> string \<Rightarrow> string \<Rightarrow> string \<Rightarrow> error option \<times> string set" where
  "downloadFile world fs client url filepath userAgent =
     (case new_request world url of
        Some err \<Rightarrow> (Some err, fs)
      | None \<Rightarrow>
          (case client_do world client url userAgent of
             Inl err \<Rightarrow> (Some err, fs)
           | Inr resp \<Rightarrow>
               if StatusCode resp \<noteq> 200 then (Some (HTTPStatus (StatusCode resp)), fs)
               else (case os_create world filepath of
                       Some err \<Rightarrow> (Some err, fs)
                     | None \<Rightarrow> (io_copy world (Body resp) filepath, insert filepath fs))))"

text \<open>The counters of \<^verbatim>\<open>downloadAll\<close>.\<close>

record tally =
  successCount :: int
  failCount :: int

text \<open>The second critical section of the goroutine: one counter is bumped.\<close>

definition record_outcome :: "error option \<Rightarrow> tally \<Rightarrow> tally" where
  "record_outcome err t =
     (if err \<noteq> None then t\<lparr>failCount := failCount t + 1\<rparr>
      else t\<lparr>successCount := successCount t + 1\<rparr>)"

subsection \<open>extractLinks\<close>

text \<open>
  \<^verbatim>\<open>fileExtPattern\<close>, the pattern
  \<^verbatim>\<open>(?i)\.(pdf|docx?|xlsx?|xlsm|pptx?|csv|txt|zip|rar|7z|tar|gz|jpg|jpeg|png|gif|svg|mp3|mp4|wav|avi|mov)$\<close>:
  a dot and one of the alternatives, at the end of the text. Under \<^verbatim>\<open>(?i)\<close> a letter of
  the pattern matches both of its ASCII cases; Go folds by Unicode orbits, so \<^verbatim>\<open>s\<close> also
  matches U+017F (bytes C5 BF) and \<^verbatim>\<open>k\<close> also U+212A (bytes E2 84 AA).
\<close>

definition fileExtPattern_alternatives :: "string list" where
  "fileExtPattern_alternatives =
     [''pdf'', ''doc'', ''docx'', ''xls'', ''xlsx'', ''xlsm'', ''ppt'', ''pptx'', ''csv'', ''txt'',
      ''zip'', ''rar'', ''7z'', ''tar'', ''gz'', ''jpg'', ''jpeg'', ''png'', ''gif'', ''svg'',
      ''mp3'', ''mp4'', ''wav'', ''avi'', ''mov'']"

fun fold_match :: "string \<Rightarrow> string \<Rightarrow> bool" where
  "fold_match [] t = (t = [])"
| "fold_match (p # ps) t =
     (case t of
        [] \<Rightarrow> False
      | c # cs \<Rightarrow>
          (ascii_lower c = p \<and> fold_match ps cs)
          \<or> (p = CHR 0x73 \<and> take 2 t = [CHR 0xC5, CHR 0xBF] \<and> fold_match ps (drop 2 t))
          \<or> (p = CHR 0x6B \<and> take 3 t = [CHR 0xE2, CHR 0x84, CHR 0xAA] \<and> fold_match ps (drop 3 t)))"

definition fileExtPattern_MatchString :: "string \<Rightarrow> bool" where
  "fileExtPattern_MatchString s =
     list_ex (\<lambda>alt. list_ex (\<lambda>n. fold_match (dot # alt) (drop n s)) [0..<Suc (length s)])
       fileExtPattern_alternatives"

text \<open>
  The closure passed to \<^verbatim>\<open>Each\<close>, in the order of its statements. First the \<^verbatim>\<open>href\<close> checks
  and the resolution against the base URL; \<^const>\<open>None\<close> is the early \<^verbatim>\<open>return\<close>.
\<close>

definition resolve_href :: "env \<Rightarrow> url \<Rightarrow> anchor \<Rightarrow> url option" where
  "resolve_href world baseURL s =
     (case href s of
        None \<Rightarrow> None
      | Some h \<Rightarrow>
          if h = [] \<or> HasPrefix h ''#'' \<or> HasPrefix h ''javascript:'' then None
          else (case url_resolve world baseURL h of Inl err \<Rightarrow> None | Inr linkURL \<Rightarrow> Some linkURL))"

text \<open>The lower-cased extension of the link's path.\<close>

definition link_ext :: "env \<Rightarrow> url \<Rightarrow> string" where
  "link_ext world linkURL = ToLower (unicode_lower world) (filepath_Ext (Path linkURL))"

text \<open>
  The extension check: the pattern in \<^verbatim>\<open>--all\<close> mode, otherwise the loop over
  \<^verbatim>\<open>config.Exts\<close> that sets \<^verbatim>\<open>matched\<close>.
\<close>

definition extension_matches :: "env \<Rightarrow> Config \<Rightarrow> url \<Rightarrow> bool" where
  "extension_matches world config linkURL =
     (if AllFiles config then fileExtPattern_MatchString (Path linkURL)
      else list_ex (\<lambda>e. link_ext world linkURL = e) (Exts config))"

text \<open>The include pattern is a nil pointer when no pattern was given.\<close>

definition include_matches :: "(string \<Rightarrow> bool) option \<Rightarrow> string \<Rightarrow> bool" where
  "include_matches includePattern fullURL =
     (case includePattern of None \<Rightarrow> True | Some MatchString \<Rightarrow> MatchString fullURL)"

text \<open>The file name of a link that passed the filters; \<^verbatim>\<open>sanitizeFilename\<close> may panic.\<close>

definition link_name :: "env \<Rightarrow> anchor \<Rightarrow> url \<Rightarrow> error + string" where
  "link_name world s linkURL =
     (let trimmed = TrimSpace (anchor_text s);
          name = (if trimmed = [] then filepath_Base (Path linkURL) else trimmed);
          ext = link_ext world linkURL
      in case sanitizeFilename name of
           Inl err \<Rightarrow> Inl err
         | Inr name \<Rightarrow>
             Inr (if \<not> HasSuffix (ToLower (unicode_lower world) name) ext \<and> ext \<noteq> []
                  then name @ ext else name))"

text \<open>
  One call of the closure on the state it captures: the slice \<^verbatim>\<open>links\<close> and the map
  \<^verbatim>\<open>seen\<close>, whose keys are all mapped to \<^verbatim>\<open>true\<close> and which is therefore a set.
\<close>

definition visit ::
  "env \<Rightarrow> Config \<Rightarrow> url \<Rightarrow> (string \<Rightarrow> bool) option \<Rightarrow> anchor
     \<Rightarrow> FileLink list \<times> string set \<Rightarrow> error + FileLink list \<times> string set" where
  "visit world config baseURL includePattern s st =
     (case resolve_href world baseURL s of
        None \<Rightarrow> Inr st
      | Some linkURL \<Rightarrow>
          let fullURL = String_of linkURL in
          if fullURL \<in> snd st then Inr st
          else if \<not> extension_matches world config linkURL then Inr st
          else if \<not> include_matches includePattern fullURL then Inr st
          else (case link_name world s linkURL of
                  Inl err \<Rightarrow> Inl err
                | Inr name \<Rightarrow>
                    Inr (fst st @ [\<lparr>Name = name, LinkURL = fullURL\<rparr>], insert fullURL (snd st))))"

fun each ::
  "env \<Rightarrow> Config \<Rightarrow> url \<Rightarrow> (string \<Rightarrow> bool) option \<Rightarrow> anchor list
     \<Rightarrow> FileLink list \<times> string set \<Rightarrow> error + FileLink list \<times> string set" where
  "each world config baseURL includePattern [] st = Inr st"
| "each world config baseURL includePattern (s # rest) st =
     (case visit world config baseURL includePattern s st of
        Inl err \<Rightarrow> Inl err
      | Inr st' \<Rightarrow> each world config baseURL includePattern rest st')"

text \<open>The pattern is compiled only when \<^verbatim>\<open>config.Include\<close> is not empty.\<close>

definition compile_include :: "env \<Rightarrow> Config \<Rightarrow> error + (string \<Rightarrow> bool) option" where
  "compile_include world config =
     (if Include config \<noteq> []
      then (case regexp_compile world (Include config) of
              Inl msg \<Rightarrow> Inl (InvalidPattern msg)
            | Inr MatchString \<Rightarrow> Inr (Some MatchString))
      else Inr None)"

text \<open>What \<^verbatim>\<open>extractLinks\<close> does once \<^verbatim>\<open>client.Do\<close> has returned.\<close>

definition links_of_response :: "env \<Rightarrow> Config \<Rightarrow> error + response \<Rightarrow> error + FileLink list" where
  "links_of_response world config done =
     (case done of
        Inl err \<Rightarrow> Inl err
      | Inr resp \<Rightarrow>
          if StatusCode resp \<noteq> 200 then Inl (HTTPStatus (StatusCode resp))
          else (case new_document world (Body resp) of
                  Inl err \<Rightarrow> Inl err
                | Inr anchors \<Rightarrow>
                    (case url_parse world (URL config) of
                       Inl err \<Rightarrow> Inl err
                     | Inr baseURL \<Rightarrow>
                         (case compile_include world config of
                            Inl err \<Rightarrow> Inl err
                          | Inr includePattern \<Rightarrow>
                              (case each world config baseURL includePattern anchors ([], {}) of
                                 Inl err \<Rightarrow> Inl err
                               | Inr st \<Rightarrow> Inr (fst st))))))"

text \<open>
  \<^verbatim>\<open>extractLinks\<close> returns the links or the error; the second component lists the URLs
  for which \<^verbatim>\<open>client.Do\<close> was called, that is the GET requests issued. The client of
  \<^verbatim>\<open>extractLinks\<close> has a timeout of 30 seconds.
\<close>

definition extractLinks :: "env \<Rightarrow> Config \<Rightarrow> (error + FileLink list) \<times> string list" where
  "extractLinks world config =
     (case new_request world (URL config) of
        Some err \<Rightarrow> (Inl err, [])
      | None \<Rightarrow>
          (links_of_response world config (client_do world 30 (URL config) (UserAgent config)),
           [URL config]))"

subsection \<open>main\<close>

text \<open>
  What a run of \<^verbatim>\<open>main\<close> does to the outside, in order: text on standard output and on
  standard error, the usage text, a GET request, \<^verbatim>\<open>os.MkdirAll\<close>, the call of
  \<^verbatim>\<open>downloadAll\<close> (the download phase above), and a panic that ends the process.
\<close>

datatype effect =
    Stdout string
  | Stderr string
  | Usage
  | HTTPGet string
  | MkdirAll string
  | DownloadAll "FileLink list"
  | Crash error

record outcome =
  effects :: "effect list"
  exit_status :: int

text \<open>\<^verbatim>\<open>%v\<close> of an error and \<^verbatim>\<open>%3d\<close> of a number.\<close>

fun error_text :: "error \<Rightarrow> string" where
  "error_text (RequestError msg) = msg"
| "error_text (TransportError msg) = msg"
| "error_text (HTTPStatus code) = ''HTTP '' @ show_int code"
| "error_text (DocumentError msg) = msg"
| "error_text (URLParseError msg) = msg"
| "error_text (InvalidPattern msg) = ''invalid include pattern: '' @ msg"
| "error_text (CreateError msg) = msg"
| "error_text (CopyError msg) = msg"
| "error_text (MkdirError msg) = msg"
| "error_text (SliceBoundsPanic n) =
     ''runtime error: slice bounds out of range [:'' @ show_int n @ '']''"
| "error_text (MakeChanPanic n) = ''makechan: size out of range''"

definition is_panic :: "error \<Rightarrow> bool" where
  "is_panic err =
     (case err of SliceBoundsPanic n \<Rightarrow> True | MakeChanPanic n \<Rightarrow> True | _ \<Rightarrow> False)"

definition pad3 :: "string \<Rightarrow> string" where
  "pad3 s = replicate (3 - length s) (CHR 0x20) @ s"

definition newline :: string where
  "newline = [CHR 0x0A]"

definition listing :: "FileLink list \<Rightarrow> effect list" where
  "listing links =
     [Stdout (''Found '' @ show_int (int (length links)) @ '' files:'' @ newline @ newline)]
     @ map (\<lambda>(i, link).
          Stdout (''  '' @ pad3 (show_int (int i + 1)) @ ''. '' @ Name link @ newline
                  @ ''       '' @ LinkURL link @ newline))
         (enumerate 0 links)
     @ [Stdout newline]"

text \<open>
  \<^verbatim>\<open>main\<close>, given the configuration that \<^verbatim>\<open>parseFlags\<close> returned. The exit status is 1
  after \<^verbatim>\<open>os.Exit(1)\<close>, 2 after a panic and 0 when \<^verbatim>\<open>main\<close> returns. \<^verbatim>\<open>downloadAll\<close>
  panics at once when \<^verbatim>\<open>config.Parallel\<close> is negative (\<^verbatim>\<open>make\<close> of a channel of negative
  size). Otherwise the effect \<^const>\<open>DownloadAll\<close> stands for the whole call, and the exit
  status after it is that of a run in which the call returns; it does not return when
  \<^verbatim>\<open>config.Parallel\<close> is 0 (no goroutine ever gets a slot of the channel) or when a name
  search never returns, and the model of \<^verbatim>\<open>main\<close> says nothing more about such runs.
\<close>

definition main :: "env \<Rightarrow> Config \<Rightarrow> outcome" where
  "main world config =
     (if URL config = [] then \<lparr>effects = [Usage], exit_status = 1\<rparr>
      else
        let (extracted, gets) = extractLinks world config;
            requests = map HTTPGet gets
        in case extracted of
             Inl err \<Rightarrow>
               if is_panic err then \<lparr>effects = requests @ [Crash err], exit_status = 2\<rparr>
               else \<lparr>effects = requests
                        @ [Stderr (''Error extracting links: '' @ error_text err @ newline)],
                      exit_status = 1\<rparr>
           | Inr links \<Rightarrow>
               if length links = 0
               then \<lparr>effects = requests @ [Stdout (''No matching files found.'' @ newline)],
                     exit_status = 0\<rparr>
               else if ListOnly config
               then \<lparr>effects = requests @ listing links, exit_status = 0\<rparr>
               else (case mkdir_all world (OutDir config) of
                       Some err \<Rightarrow>
                         \<lparr>effects = requests @ listing links
                            @ [MkdirAll (OutDir config),
                               Stderr (''Error creating directory: '' @ error_text err @ newline)],
                          exit_status = 1\<rparr>
                     | None \<Rightarrow>
                         if Parallel config < 0
                         then \<lparr>effects = requests @ listing links
                                 @ [MkdirAll (OutDir config),
                                    Crash (MakeChanPanic (Parallel config))],
                               exit_status = 2\<rparr>
                         else \<lparr>effects = requests @ listing links
                                 @ [MkdirAll (OutDir config), DownloadAll links],
                               exit_status = 0\<rparr>))"

subsection \<open>Notions used in the statements\<close>

text \<open>The names requested in a run of the download phase, in order.\<close>

fun requested :: "event list \<Rightarrow> string list" where
  "requested [] = []"
| "requested (Request name # evs) = name # requested evs"
| "requested (Written k # evs) = requested evs"

text \<open>
  The name that the request number \<open>j\<close> (from 0) for one desired name receives in a
  directory that holds none of these names: the name itself, then \<^verbatim>\<open>_2\<close>, \<^verbatim>\<open>_3\<close>, ...
\<close>

definition nth_name :: "string \<Rightarrow> nat \<Rightarrow> string" where
  "nth_name name j =
     (if j = 0 then name
      else numbered (TrimSuffix name (filepath_Ext name)) (int j + 1) (filepath_Ext name))"

definition same_name_inv :: "string \<Rightarrow> nat \<Rightarrow> dl_state \<Rightarrow> bool" where
  "same_name_inv name k s =
     (handed s = map (nth_name name) [0..<k] \<and> files s \<subseteq> set (handed s)
      \<and> lookup_count (usedNames s) name = int k)"

text \<open>
  The page has been fetched: the request was built, \<^verbatim>\<open>client.Do\<close> answered with status
  200, the document was parsed and the base URL was parsed.
\<close>

definition page_fetched :: "env \<Rightarrow> Config \<Rightarrow> bool" where
  "page_fetched world config =
     (new_request world (URL config) = None
      \<and> (case client_do world 30 (URL config) (UserAgent config) of
            Inl err \<Rightarrow> False
          | Inr resp \<Rightarrow>
              StatusCode resp = 200
              \<and> (case new_document world (Body resp) of
                    Inl err \<Rightarrow> False
                  | Inr anchors \<Rightarrow>
                      (case url_parse world (URL config) of Inl err \<Rightarrow> False | Inr baseURL \<Rightarrow> True))))"

text \<open>The conditions under which \<^verbatim>\<open>downloadFile\<close> returns an error, read off its branches.\<close>

definition download_fails :: "env \<Rightarrow> nat \<Rightarrow> string \<Rightarrow> string \<Rightarrow> string \<Rightarrow> bool" where
  "download_fails world client url filepath userAgent =
     (new_request world url \<noteq> None
      \<or> (case client_do world client url userAgent of
            Inl err \<Rightarrow> True
          | Inr resp \<Rightarrow>
              StatusCode resp \<noteq> 200 \<or> os_create world filepath \<noteq> None
              \<or> io_copy world (Body resp) filepath \<noteq> None))"

text \<open>
  The same conditions as the specification words them: a transport error, a status that
  is not a 2xx status, or an error creating or writing the file.
\<close>

definition spec_download_fails :: "env \<Rightarrow> nat \<Rightarrow> string \<Rightarrow> string \<Rightarrow> string \<Rightarrow> bool" where
  "spec_download_fails world client url filepath userAgent =
     (new_request world url \<noteq> None
      \<or> (case client_do world client url userAgent of
            Inl err \<Rightarrow> True
          | Inr resp \<Rightarrow>
              \<not> (200 \<le> StatusCode resp \<and> StatusCode resp < 300)
              \<or> os_create world filepath \<noteq> None
              \<or> io_copy world (Body resp) filepath \<noteq> None))"

text \<open>
  A property of URL resolution: the string of a resolved URL determines its path (in
  \<^verbatim>\<open>net/url\<close> the path is the unescaped path component of the string).
\<close>

definition path_determined :: "env \<Rightarrow> url \<Rightarrow> bool" where
  "path_determined world baseURL =
     (\<forall>h1 h2 u1 u2. url_resolve world baseURL h1 = Inr u1 \<and> url_resolve world baseURL h2 = Inr u2
        \<and> String_of u1 = String_of u2 \<longrightarrow> Path u1 = Path u2)"

text \<open>A resolved link passes the extension check and the include pattern.\<close>

definition accepted :: "env \<Rightarrow> Config \<Rightarrow> (string \<Rightarrow> bool) option \<Rightarrow> url \<Rightarrow> bool" where
  "accepted world config includePattern linkURL =
     (extension_matches world config linkURL \<and> include_matches includePattern (String_of linkURL))"

text \<open>
  A link of the result stems from the first anchor, in document order, that resolves to
  its URL: the anchor resolves to the URL of the link and passes the filters, the name
  of the link is derived from it, and no anchor before it resolves to the same string.
\<close>

definition first_occurrence ::
  "env \<Rightarrow> Config \<Rightarrow> url \<Rightarrow> (string \<Rightarrow> bool) option \<Rightarrow> anchor list \<Rightarrow> FileLink \<Rightarrow> bool" where
  "first_occurrence world config baseURL includePattern visited link =
     (\<exists>before s after u.
        visited = before @ s # after
        \<and> resolve_href world baseURL s = Some u
        \<and> accepted world config includePattern u
        \<and> String_of u = LinkURL link
        \<and> link_name world s u = Inr (Name link)
        \<and> (\<forall>s'\<in>set before. \<forall>u'. resolve_href world baseURL s' = Some u'
              \<longrightarrow> String_of u' \<noteq> LinkURL link))"

text \<open>
  Every anchor that resolves and passes the filters has its URL among the given ones.
\<close>

definition all_kept ::
  "env \<Rightarrow> Config \<Rightarrow> url \<Rightarrow> (string \<Rightarrow> bool) option \<Rightarrow> anchor list \<Rightarrow> string set \<Rightarrow> bool" where
  "all_kept world config baseURL includePattern visited urls =
     (\<forall>s\<in>set visited. \<forall>u. resolve_href world baseURL s = Some u
        \<and> accepted world config includePattern u \<longrightarrow> String_of u \<in> urls)"

text \<open>
  Every link stems from some anchor that resolves to its URL and passes the filters.
\<close>

definition all_from_anchors ::
  "env \<Rightarrow> Config \<Rightarrow> url \<Rightarrow> (string \<Rightarrow> bool) option \<Rightarrow> anchor list \<Rightarrow> FileLink list \<Rightarrow> bool" where
  "all_from_anchors world config baseURL includePattern visited links =
     (\<forall>link\<in>set links. \<exists>s\<in>set visited. \<exists>u.
        resolve_href world baseURL s = Some u
        \<and> accepted world config includePattern u
        \<and> String_of u = LinkURL link
        \<and> link_name world s u = Inr (Name link))"

text \<open>
  The invariants of the loop over the anchors. The first needs nothing of URL
  resolution: \<^verbatim>\<open>seen\<close> holds the URLs of the links, these are pairwise distinct, the URL
  of every visited anchor that passes the filters is in \<^verbatim>\<open>seen\<close>, and every link stems
  from a visited anchor. The second adds that every link stems from a first occurrence.
\<close>

definition each_inv ::
  "env \<Rightarrow> Config \<Rightarrow> url \<Rightarrow> (string \<Rightarrow> bool) option \<Rightarrow> anchor list
     \<Rightarrow> FileLink list \<times> string set \<Rightarrow> bool" where
  "each_inv world config baseURL includePattern visited st =
     (snd st = set (map LinkURL (fst st))
      \<and> distinct (map LinkURL (fst st))
      \<and> all_kept world config baseURL includePattern visited (snd st)
      \<and> all_from_anchors world config baseURL includePattern visited (fst st))"

definition first_inv ::
  "env \<Rightarrow> Config \<Rightarrow> url \<Rightarrow> (string \<Rightarrow> bool) option \<Rightarrow> anchor list
     \<Rightarrow> FileLink list \<times> string set \<Rightarrow> bool" where
  "first_inv world config baseURL includePattern visited st =
     (each_inv world config baseURL includePattern visited st
      \<and> (\<forall>link\<in>set (fst st).
            first_occurrence world config baseURL includePattern visited link))"

subsection \<open>Example inputs\<close>

text \<open>
  A world in which every request is answered with status 200 and the page holds the two
  anchors \<^verbatim>\<open><a href="/a.pdf">Report One</a>\<close> and \<^verbatim>\<open><a href="/a.pdf">Duplicate</a>\<close>; no pattern
  compiles in it. Variants: a page without anchors, and a server that answers 204.
\<close>

definition example_world :: env where
  "example_world =
     \<lparr>new_request = (\<lambda>u. None),
      client_do = (\<lambda>t u ua. Inr \<lparr>StatusCode = 200, Body = ''<html>''\<rparr>),
      new_document = (\<lambda>b. Inr [\<lparr>href = Some ''/a.pdf'', anchor_text = ''Report One''\<rparr>,
                                 \<lparr>href = Some ''/a.pdf'', anchor_text = ''Duplicate''\<rparr>]),
      url_parse = (\<lambda>u. Inr \<lparr>Path = ''/page'', String_of = u\<rparr>),
      url_resolve = (\<lambda>b h. Inr \<lparr>Path = h, String_of = ''http://example.com'' @ h\<rparr>),
      regexp_compile = (\<lambda>p. Inl ''missing closing ]''),
      unicode_lower = (\<lambda>s. s),
      mkdir_all = (\<lambda>d. None),
      os_create = (\<lambda>p. None),
      io_copy = (\<lambda>b p. None)\<rparr>"

definition empty_page_world :: env where
  "empty_page_world = example_world\<lparr>new_document := (\<lambda>b. Inr [])\<rparr>"

definition no_content_world :: env where
  "no_content_world =
     example_world\<lparr>client_do := (\<lambda>t u ua. Inr \<lparr>StatusCode = 204, Body = []\<rparr>)\<rparr>"

text \<open>
  A page that starts with a link to an HTML page and repeats the target \<^verbatim>\<open>/a.pdf\<close> after
  another file, and a server that answers 404.
\<close>

definition four_anchor_world :: env where
  "four_anchor_world =
     example_world\<lparr>new_document := (\<lambda>b.
        Inr [\<lparr>href = Some ''/home.html'', anchor_text = ''Home''\<rparr>,
             \<lparr>href = Some ''/a.pdf'', anchor_text = ''Report One''\<rparr>,
             \<lparr>href = Some ''/b.pdf'', anchor_text = ''Other''\<rparr>,
             \<lparr>href = Some ''/a.pdf'', anchor_text = ''Duplicate''\<rparr>])\<rparr>"

definition not_found_world :: env where
  "not_found_world =
     example_world\<lparr>client_do := (\<lambda>t u ua. Inr \<lparr>StatusCode = 404, Body = []\<rparr>)\<rparr>"

text \<open>The default configuration with the include pattern \<^verbatim>\<open>[\<close>.\<close>

definition bad_pattern_config :: Config where
  "bad_pattern_config =
     parseFlags (\<lambda>s. s) (default_flags\<lparr>flag_include := ''[''\<rparr>) [''http://example.com/page'']"

section \<open>Properties\<close>

subsection \<open>Decimal rendering\<close>

lemma digit_char_inj: "a < 10 \<Longrightarrow> b < 10 \<Longrightarrow> digit_char a = digit_char b \<Longrightarrow> a = b"
proof -
  assume a: "a < 10" and b: "b < 10" and e: "digit_char a = digit_char b"
  from e have "(of_char (digit_char a) :: nat) = of_char (digit_char b)" by simp
  then have "(48 + a) mod 256 = (48 + b) mod 256"
    by (simp add: digit_char_def)
  with a b show "a = b" by simp
qed

lemma digit_char_not_minus: "d < 10 \<Longrightarrow> digit_char d \<noteq> CHR 0x2D"
proof
  assume d: "d < 10" and e: "digit_char d = CHR 0x2D"
  from e have "(of_char (digit_char d) :: nat) = of_char (CHR 0x2D)" by simp
  then have "(48 + d) mod 256 = 45" by (simp add: digit_char_def)
  with d show False by simp
qed

lemma show_nat_nonempty: "show_nat n \<noteq> []"
  by (subst show_nat.simps) simp

lemma show_nat_no_minus: "CHR 0x2D \<notin> set (show_nat n)"
proof (induction n rule: show_nat.induct)
  case (1 n)
  show ?case
  proof (cases "n < 10")
    case True
    then show ?thesis using digit_char_not_minus[of n]
      by (subst show_nat.simps) auto
  next
    case False
    have "n mod 10 < 10" by simp
    then have "digit_char (n mod 10) \<noteq> CHR 0x2D" by (rule digit_char_not_minus)
    with False 1 show ?thesis
      by (subst show_nat.simps) auto
  qed
qed

lemma show_nat_inj: "show_nat m = show_nat n \<Longrightarrow> m = n"
proof (induction m arbitrary: n rule: show_nat.induct)
  case (1 m)
  show ?case
  proof (cases "m < 10")
    case mlt: True
    show ?thesis
    proof (cases "n < 10")
      case True
      with mlt "1.prems" show ?thesis
        by (simp add: show_nat.simps[of m] show_nat.simps[of n] digit_char_inj)
    next
      case False
      with mlt "1.prems" have "[digit_char m] = show_nat (n div 10) @ [digit_char (n mod 10)]"
        by (simp add: show_nat.simps[of m] show_nat.simps[of n])
      then have "show_nat (n div 10) = []" by simp
      then show ?thesis using show_nat_nonempty by blast
    qed
  next
    case mge: False
    show ?thesis
    proof (cases "n < 10")
      case True
      with mge "1.prems" have "show_nat (m div 10) @ [digit_char (m mod 10)] = [digit_char n]"
        by (simp add: show_nat.simps[of m] show_nat.simps[of n])
      then have "show_nat (m div 10) = []" by simp
      then show ?thesis using show_nat_nonempty by blast
    next
      case False
      with mge "1.prems" have e: "show_nat (m div 10) @ [digit_char (m mod 10)] =
          show_nat (n div 10) @ [digit_char (n mod 10)]"
        by (simp add: show_nat.simps[of m] show_nat.simps[of n])
      then have "show_nat (m div 10) = show_nat (n div 10)" by simp
      with mge "1.IH" have d: "m div 10 = n div 10" by blast
      from e have "digit_char (m mod 10) = digit_char (n mod 10)" by simp
      then have "m mod 10 = n mod 10" by (intro digit_char_inj) simp_all
      with d show ?thesis by (metis div_mult_mod_eq)
    qed
  qed
qed

lemma show_int_inj: "show_int i = show_int j \<Longrightarrow> i = j"
proof -
  assume e: "show_int i = show_int j"
  have hd_neg: "\<And>n m. CHR 0x2D # show_nat n \<noteq> show_nat m"
    using show_nat_no_minus by (metis list.set_intros(1))
  show "i = j"
  proof (cases "i < 0")
    case ineg: True
    show ?thesis
    proof (cases "j < 0")
      case True
      with ineg e have "show_nat (nat (- i)) = show_nat (nat (- j))" by (simp add: show_int_def)
      then have "nat (- i) = nat (- j)" by (rule show_nat_inj)
      with ineg True show ?thesis by simp
    next
      case False
      with ineg e hd_neg show ?thesis by (simp add: show_int_def)
    qed
  next
    case inn: False
    show ?thesis
    proof (cases "j < 0")
      case True
      with inn e hd_neg[of "nat (- j)" "nat i"] show ?thesis by (simp add: show_int_def)
    next
      case False
      with inn e have "show_nat (nat i) = show_nat (nat j)" by (simp add: show_int_def)
      then have "nat i = nat j" by (rule show_nat_inj)
      with inn False show ?thesis by simp
    qed
  qed
qed

lemma numbered_inj: "numbered stem i ext = numbered stem j ext \<Longrightarrow> i = j"
  by (simp add: numbered_def show_int_inj)

lemma numbered_inj_on: "inj (\<lambda>i. numbered stem i ext)"
  by (rule injI) (rule numbered_inj)

subsection \<open>getUniqueFilename\<close>

lemma ext_scan_suffix: "\<exists>pre. rev cs @ acc = pre @ ext_scan cs acc"
proof (induction cs acc rule: ext_scan.induct)
  case (1 acc)
  then show ?case by simp
next
  case (2 c cs acc)
  then show ?case by (auto intro: exI[of _ "rev cs"])
qed

lemma filepath_Ext_suffix: "\<exists>pre. path = pre @ filepath_Ext path"
  using ext_scan_suffix[of "rev path" "[]"] by (simp add: filepath_Ext_def)

lemma TrimSuffix_Ext: "TrimSuffix name (filepath_Ext name) @ filepath_Ext name = name"
proof -
  obtain pre where p: "name = pre @ filepath_Ext name" using filepath_Ext_suffix by blast
  then have l: "length name = length pre + length (filepath_Ext name)"
    by (metis length_append)
  have "HasSuffix name (filepath_Ext name)"
    unfolding HasSuffix_def using p l by (metis add_diff_cancel_right' append_eq_conv_conj le_add2)
  moreover have "take (length name - length (filepath_Ext name)) name = pre"
    using p l by (metis add_diff_cancel_right' append_eq_conv_conj)
  ultimately show ?thesis using p by (simp add: TrimSuffix_def)
qed

lemma numbered_neq_name: "numbered (TrimSuffix name (filepath_Ext name)) i (filepath_Ext name) \<noteq> name"
proof
  assume "numbered (TrimSuffix name (filepath_Ext name)) i (filepath_Ext name) = name"
  then have "length (numbered (TrimSuffix name (filepath_Ext name)) i (filepath_Ext name)) = length (TrimSuffix name (filepath_Ext name) @ filepath_Ext name)"
    by (simp only: TrimSuffix_Ext)
  then show False by (simp add: numbered_def)
qed

lemma find_available_free:
  assumes "find_available stat dir stem ext i = Some r"
  shows "stat dir r = NotExist"
  by (rule find_available.raw_induct
        [where P = "\<lambda>stat dir stem ext i r. stat dir r = NotExist", OF _ assms])
     (auto split: if_splits)

lemma getUniqueFilename_free:
  "getUniqueFilename stat dir name used = Some (filename, used') \<Longrightarrow> stat dir filename = NotExist"
  by (auto simp: getUniqueFilename_def Let_def split: if_splits dest: find_available_free)

text \<open>
  When the search returns: whenever \<^verbatim>\<open>Stat\<close> reports one of the numbered names from the
  start index on as absent, the search returns the first such name.
\<close>

lemma wrap_int_id: "- (2 ^ 63) \<le> x \<Longrightarrow> x < 2 ^ 63 \<Longrightarrow> wrap_int x = x"
  by (simp add: wrap_int_def)

lemma wrap_int_max: "wrap_int (2 ^ 63 - 1 + 1) = - (2 ^ 63)"
  by (simp add: wrap_int_def)

lemma find_available_reaches:
  assumes "- (2 ^ 63) \<le> i" and "i \<le> j" and "j < 2 ^ 63"
    and "stat dir (numbered stem j ext) = NotExist"
  shows "\<exists>k. i \<le> k \<and> k \<le> j \<and> find_available stat dir stem ext i = Some (numbered stem k ext)
              \<and> stat dir (numbered stem k ext) = NotExist"
  using assms
proof (induction "nat (j - i)" arbitrary: i)
  case 0
  then have "i = j" by simp
  with 0 show ?case by (subst find_available.simps) auto
next
  case (Suc d)
  show ?case
  proof (cases "stat dir (numbered stem i ext) = NotExist")
    case True
    with Suc.prems show ?thesis by (subst find_available.simps) auto
  next
    case False
    from Suc.hyps(2) have lt: "i < j" and d: "d = nat (j - (i + 1))" by auto
    from lt Suc.prems have w: "wrap_int (i + 1) = i + 1" by (intro wrap_int_id) auto
    from Suc.hyps(1)[OF d] lt Suc.prems obtain k where
      "i + 1 \<le> k" "k \<le> j" "find_available stat dir stem ext (i + 1) = Some (numbered stem k ext)"
      "stat dir (numbered stem k ext) = NotExist" by auto
    with False w show ?thesis
      by (subst find_available.simps) (auto intro!: exI[of _ k])
  qed
qed

lemma getUniqueFilename_returns:
  assumes "0 \<le> lookup_count counts name" and "lookup_count counts name < j" and "j < 2 ^ 63"
    and "stat dir (numbered (TrimSuffix name (filepath_Ext name)) j (filepath_Ext name)) = NotExist"
  shows "\<exists>filename used. getUniqueFilename stat dir name counts = Some (filename, used)
           \<and> stat dir filename = NotExist"
proof -
  let ?ext = "filepath_Ext name"
  let ?stem = "TrimSuffix name ?ext"
  let ?c = "lookup_count counts name"
  from assms have w: "wrap_int (?c + 1) = ?c + 1" by (intro wrap_int_id) auto
  from assms have "- (2 ^ 63) \<le> ?c + 1" "?c + 1 \<le> j" by auto
  from find_available_reaches[of "?c + 1" j stat dir ?stem ?ext, OF this assms(3,4)] obtain k where
    "find_available stat dir ?stem ?ext (?c + 1) = Some (numbered ?stem k ?ext)"
    "stat dir (numbered ?stem k ?ext) = NotExist" by blast
  with w show ?thesis by (auto simp: getUniqueFilename_def Let_def)
qed

text \<open>
  When it does not: \<^verbatim>\<open>Stat\<close> reports no name as absent. The code takes every error of
  \<^verbatim>\<open>Stat\<close> other than not-exist for an existing file, so in a directory that cannot be
  searched, where \<^verbatim>\<open>Stat\<close> fails for every name, the search goes on for ever.
\<close>

lemma find_available_never_absent:
  assumes "\<forall>n. stat dir n \<noteq> NotExist"
  shows "find_available stat dir stem ext i = None"
proof (rule ccontr)
  assume "find_available stat dir stem ext i \<noteq> None"
  then obtain r where "find_available stat dir stem ext i = Some r" by auto
  from find_available_free[OF this] assms show False by simp
qed

lemma getUniqueFilename_unsearchable_directory:
  "getUniqueFilename (\<lambda>dir name. StatFailed) dir name counts = None"
  by (simp add: getUniqueFilename_def Let_def find_available_never_absent)

text \<open>
  Claim C9. The output directory exists and holds no file, but cannot be searched, so
  that \<^verbatim>\<open>Stat\<close> fails for every name with an error that is not not-exist. The request
  for \<^verbatim>\<open>a.pdf\<close> with an empty counter map never returns: \<^verbatim>\<open>getUniqueFilename\<close> does not
  terminate on this input.
\<close>

theorem unsearchable_directory_never_returns:
  "getUniqueFilename (\<lambda>dir name. StatFailed) ''downloads'' ''a.pdf'' Map.empty = None"
  by (rule getUniqueFilename_unsearchable_directory)

text \<open>
  Claim C1. Three links named \<^verbatim>\<open>a.pdf\<close>, \<^verbatim>\<open>a.pdf\<close> and \<^verbatim>\<open>a_2.pdf\<close>, requested in this order
  in an empty directory before any download has created its file: the second request
  generates \<^verbatim>\<open>a_2.pdf\<close> from the counter of \<^verbatim>\<open>a.pdf\<close>, the third finds the counter of
  \<^verbatim>\<open>a_2.pdf\<close> at zero and no such file on disk, and is handed the same name.
\<close>

theorem cross_name_collision:
  "map_option handed
     (run stat_of ''downloads'' (start {}) [Request ''a.pdf'', Request ''a.pdf'', Request ''a_2.pdf''])
     = Some [''a.pdf'', ''a_2.pdf'', ''a_2.pdf'']"
  by code_simp

text \<open>
  What does hold in every run: the name handed out by a request is absent from the
  directory when the request is served. And a second way to the same collision, with
  one desired name only: a file \<^verbatim>\<open>a_2.pdf\<close> that exists before the run makes the second
  request skip to \<^verbatim>\<open>a_3.pdf\<close>, which the third request, starting at its counter 3, is
  handed again.
\<close>

lemma handed_absent_at_check:
  assumes "step stat dir s (Request name) = Some s'"
  shows "handed s' = handed s @ [last (handed s')]
       \<and> stat (files s) dir (last (handed s')) = NotExist"
  using assms
  by (auto simp: step_def split: option.splits dest!: getUniqueFilename_free)

lemma numbered_name_skipped_twice:
  "map_option handed
     (run stat_of ''downloads'' (start {''a_2.pdf''})
        [Request ''a.pdf'', Request ''a.pdf'', Request ''a.pdf''])
     = Some [''a.pdf'', ''a_3.pdf'', ''a_3.pdf'']"
  by code_simp

subsection \<open>Requests for one name in an empty directory\<close>

lemma nth_name_inj: "nth_name name i = nth_name name j \<Longrightarrow> i = j"
  using numbered_neq_name[of name] numbered_neq_name[of name, symmetric]
  by (auto simp: nth_name_def split: if_splits dest!: numbered_inj)

lemma distinct_nth_names: "distinct (map (nth_name name) [0..<k])"
  by (auto simp: distinct_map intro!: inj_onI dest: nth_name_inj)

lemma request_same_name:
  assumes inv: "same_name_inv name k s"
    and range: "int k + 1 < 2 ^ 63"
    and faithful: "stat (files s) dir (nth_name name k)
                     = (if nth_name name k \<in> files s then Found else NotExist)"
  shows "\<exists>s'. step stat dir s (Request name) = Some s' \<and> same_name_inv name (Suc k) s'"
proof -
  let ?ext = "filepath_Ext name"
  let ?stem = "TrimSuffix name ?ext"
  let ?used = "(usedNames s)(name \<mapsto> int k + 1)"
  have w: "wrap_int (int k + 1) = int k + 1"
    using range by (intro wrap_int_id) auto
  have "nth_name name k \<notin> files s"
  proof
    assume "nth_name name k \<in> files s"
    with inv have "nth_name name k \<in> nth_name name ` {0..<k}"
      by (auto simp: same_name_inv_def)
    then obtain j where "j < k" "nth_name name k = nth_name name j" by auto
    then show False using nth_name_inj by blast
  qed
  with faithful have free: "stat (files s) dir (nth_name name k) = NotExist" by simp
  have res: "getUniqueFilename (stat (files s)) dir name (usedNames s)
               = Some (nth_name name k, ?used)"
  proof (cases "k = 0")
    case True
    with free inv w show ?thesis
      by (simp add: getUniqueFilename_def Let_def same_name_inv_def nth_name_def)
  next
    case False
    with free have "stat (files s) dir (numbered ?stem (int k + 1) ?ext) = NotExist"
      by (simp add: nth_name_def)
    then have "find_available (stat (files s)) dir ?stem ?ext (int k + 1)
                 = Some (numbered ?stem (int k + 1) ?ext)"
      by (subst find_available.simps) simp
    with False inv w show ?thesis
      by (simp add: getUniqueFilename_def Let_def same_name_inv_def nth_name_def)
  qed
  let ?s' = "s\<lparr>usedNames := ?used, handed := handed s @ [nth_name name k]\<rparr>"
  have "step stat dir s (Request name) = Some ?s'"
    by (simp add: step_def res)
  moreover have "same_name_inv name (Suc k) ?s'"
    using inv by (auto simp: same_name_inv_def lookup_count_def)
  ultimately show ?thesis by blast
qed

lemma written_same_name:
  assumes inv: "same_name_inv name k s"
  shows "\<exists>s'. step stat dir s (Written j) = Some s' \<and> same_name_inv name k s'"
  using inv by (auto simp: step_def same_name_inv_def)

lemma run_same_name:
  assumes faithful: "\<forall>fs. \<forall>j<n. stat fs dir (nth_name name j)
                       = (if nth_name name j \<in> fs then Found else NotExist)"
    and range: "int n < 2 ^ 63"
  shows "same_name_inv name k s \<Longrightarrow> requested evs = replicate m name \<Longrightarrow> k + m = n \<Longrightarrow>
         \<exists>s'. run stat dir s evs = Some s' \<and> same_name_inv name n s'"
proof (induction evs arbitrary: s k m)
  case Nil
  then show ?case by simp
next
  case (Cons ev evs)
  show ?case
  proof (cases ev)
    case (Request x)
    with Cons.prems(2) obtain m' where m: "m = Suc m'" and x: "x = name"
      and rest: "requested evs = replicate m' name"
      by (cases m) auto
    from m Cons.prems(3) have k: "k < n" and sum: "Suc k + m' = n" by auto
    from k range have r: "int k + 1 < 2 ^ 63" by auto
    from faithful k have f: "stat (files s) dir (nth_name name k)
        = (if nth_name name k \<in> files s then Found else NotExist)" by blast
    from request_same_name[where stat = stat and dir = dir, OF Cons.prems(1) r f] obtain s1 where
      s1: "step stat dir s (Request name) = Some s1" "same_name_inv name (Suc k) s1" by blast
    from Cons.IH[OF s1(2) rest sum] obtain s' where
      "run stat dir s1 evs = Some s'" "same_name_inv name n s'" by blast
    with s1 Request x show ?thesis by simp
  next
    case (Written j)
    with Cons.prems(2) have rest: "requested evs = replicate m name" by simp
    from written_same_name[OF Cons.prems(1), of stat dir j] obtain s1 where
      s1: "step stat dir s (Written j) = Some s1" "same_name_inv name k s1" by blast
    from Cons.IH[OF s1(2) rest Cons.prems(3)] obtain s' where
      "run stat dir s1 evs = Some s'" "same_name_inv name n s'" by blast
    with s1 Written show ?thesis by simp
  qed
qed

text \<open>
  Claim C6. A run of the download phase starts in an empty directory, all its \<open>n\<close>
  requests ask for the same name, and downloads create their files at any time in
  between. \<^verbatim>\<open>Stat\<close> is a parameter; it is assumed to answer faithfully for the \<open>n\<close> names
  concerned (the desired name and its numbered names up to \<open>n\<close>): found when the file
  has been created, absent otherwise. This excludes a directory that cannot be searched
  and names that \<^verbatim>\<open>filepath.Join\<close> does not map to a file of their own, such as the empty
  name. The number of requests is within Go's \<^verbatim>\<open>int\<close>. Then every request returns, the
  \<open>n\<close> names handed out are pairwise distinct, the first one is the desired name
  unchanged, and the following ones are its numbered names from 2 on.
\<close>

theorem same_name_requests_distinct:
  assumes "requested evs = replicate n name"
    and "int n < 2 ^ 63"
    and "\<forall>fs. \<forall>j<n. stat fs dir (nth_name name j)
           = (if nth_name name j \<in> fs then Found else NotExist)"
  shows "\<exists>s. run stat dir (start {}) evs = Some s \<and> length (handed s) = n \<and> distinct (handed s)
           \<and> (n = 0 \<or> hd (handed s) = name)
           \<and> handed s = map (nth_name name) [0..<n]"
proof -
  have "same_name_inv name 0 (start {})"
    by (simp add: same_name_inv_def start_def lookup_count_def)
  from run_same_name[where stat = stat and dir = dir, OF assms(3,2) this assms(1)] obtain s where
    r: "run stat dir (start {}) evs = Some s" and i: "same_name_inv name n s" by auto
  from i have h: "handed s = map (nth_name name) [0..<n]" by (simp add: same_name_inv_def)
  have "n = 0 \<or> hd (handed s) = name"
    by (cases n) (simp_all add: h nth_name_def upt_rec)
  with r h show ?thesis using distinct_nth_names[of name n] by simp
qed

theorem same_name_requests_distinct_witness:
  "requested [Request ''r.pdf'', Written 0, Request ''r.pdf'', Request ''r.pdf'']
     = replicate 3 ''r.pdf''
   \<and> (\<exists>s. run stat_of ''out'' (start {})
            [Request ''r.pdf'', Written 0, Request ''r.pdf'', Request ''r.pdf''] = Some s
          \<and> length (handed s) = 3 \<and> distinct (handed s)
          \<and> ((3::nat) = 0 \<or> hd (handed s) = ''r.pdf''))
   \<and> map_option handed (run stat_of ''out'' (start {})
        [Request ''r.pdf'', Written 0, Request ''r.pdf'', Request ''r.pdf''])
        = Some [''r.pdf'', ''r_2.pdf'', ''r_3.pdf'']"
proof -
  have req: "requested [Request ''r.pdf'', Written 0, Request ''r.pdf'', Request ''r.pdf'']
               = replicate 3 ''r.pdf''"
    by (simp add: numeral_3_eq_3)
  have val: "map_option handed (run stat_of ''out'' (start {})
        [Request ''r.pdf'', Written 0, Request ''r.pdf'', Request ''r.pdf''])
        = Some [''r.pdf'', ''r_2.pdf'', ''r_3.pdf'']"
    by code_simp
  have range: "int 3 < 2 ^ 63" by simp
  have faithful: "\<forall>fs. \<forall>j<3. stat_of fs ''out'' (nth_name ''r.pdf'' j)
           = (if nth_name ''r.pdf'' j \<in> fs then Found else NotExist)"
    by (simp add: stat_of_def)
  from req same_name_requests_distinct[where stat = stat_of and dir = "''out''", OF req range faithful]
    val show ?thesis by blast
qed

subsection \<open>sanitizeFilename\<close>

lemma underscore_valid: "\<not> invalid_char underscore"
  by (simp add: invalid_char_def underscore_def)

lemma replace_invalid_valid: "\<forall>c\<in>set (replace_invalid name). \<not> invalid_char c"
  by (auto simp: replace_invalid_def underscore_valid)

lemma collapse_runs_valid:
  "\<forall>c\<in>set s. \<not> invalid_char c \<Longrightarrow> \<forall>c\<in>set (collapse_runs s). \<not> invalid_char c"
proof (induction s rule: collapse_runs.induct)
  case 1
  then show ?case by simp
next
  case (2 c cs)
  then show ?case using underscore_valid by (auto dest: set_dropWhileD)
qed

lemma set_Trim: "set (Trim s cutset) \<subseteq> set s"
  by (auto simp: Trim_def dest!: set_dropWhileD)

lemma set_filepath_Ext: "set (filepath_Ext s) \<subseteq> set s"
proof -
  obtain pre where "s = pre @ filepath_Ext s" using filepath_Ext_suffix by blast
  then have "set s = set pre \<union> set (filepath_Ext s)" by (metis set_append)
  then show ?thesis by blast
qed

lemma limit_length_result:
  assumes "limit_length s = Inr r"
  shows "length r \<le> 200 \<and> set r \<subseteq> set s"
proof (cases "length s > 200")
  case True
  with assms have b: "\<not> 200 - int (length (filepath_Ext s)) < 0"
    and r: "r = take (nat (200 - int (length (filepath_Ext s)))) s @ filepath_Ext s"
    by (auto simp: limit_length_def Let_def split: if_splits)
  from b r have "length r \<le> 200" by auto
  moreover from r have "set r \<subseteq> set s"
    using set_filepath_Ext[of s] by (auto dest: in_set_takeD)
  ultimately show ?thesis by simp
next
  case False
  with assms show ?thesis by (auto simp: limit_length_def)
qed

lemma sanitizeFilename_result:
  assumes "sanitizeFilename name = Inr r"
  shows "r \<noteq> [] \<and> length r \<le> 200 \<and> (\<forall>c\<in>set r. \<not> invalid_char c)"
proof -
  let ?cleaned = "Trim (collapse_runs (replace_invalid name)) [CHR 0x20, dot, underscore]"
  from assms obtain limited where l: "limit_length ?cleaned = Inr limited"
    and r: "r = (if limited = [] then ''unnamed'' else limited)"
    by (auto simp: sanitizeFilename_def split: sum.splits)
  have "\<forall>c\<in>set ?cleaned. \<not> invalid_char c"
    using collapse_runs_valid[OF replace_invalid_valid, of name] set_Trim by blast
  with limit_length_result[OF l] have "length limited \<le> 200"
    and "\<forall>c\<in>set limited. \<not> invalid_char c" by auto
  moreover have "\<forall>c\<in>set ''unnamed''. \<not> invalid_char c"
    by (simp add: invalid_char_def)
  ultimately show ?thesis using r by auto
qed

lemma sanitizeFilename_panics_iff:
  "(\<exists>err. sanitizeFilename name = Inl err)
   = (200 < length (filepath_Ext (Trim (collapse_runs (replace_invalid name)) [CHR 0x20, dot, underscore])))"
proof -
  let ?cleaned = "Trim (collapse_runs (replace_invalid name)) [CHR 0x20, dot, underscore]"
  obtain pre where "?cleaned = pre @ filepath_Ext ?cleaned" using filepath_Ext_suffix by blast
  then have "length ?cleaned = length pre + length (filepath_Ext ?cleaned)"
    by (metis length_append)
  then show ?thesis
    by (auto simp: sanitizeFilename_def limit_length_def Let_def split: sum.splits)
qed

text \<open>
  The control characters that are replaced are the bytes 0x00 to 0x1F of the pattern;
  the byte 0x7F is kept.
\<close>

lemma sanitizeFilename_keeps_0x7F:
  "sanitizeFilename [CHR 0x61, CHR 0x7F] = Inr [CHR 0x61, CHR 0x7F]"
  by code_simp

text \<open>
  Claim C2. A name whose extension, counted from its last dot, is longer than 200 bytes:
  \<^verbatim>\<open>a.\<close> followed by 201 letters \<^verbatim>\<open>b\<close>. The length is above 200, the extension has 202
  bytes, and the slice \<^verbatim>\<open>name[:200-len(ext)]\<close> has the bound -2: the function panics
  instead of returning a name.
\<close>

theorem sanitize_long_extension_panics:
  "sanitizeFilename (''a.'' @ replicate 201 (CHR ''b'')) = Inl (SliceBoundsPanic (- 2))"
  by code_simp

subsection \<open>Extension filtering\<close>

lemma ext_simps:
  "filepath_Ext (p @ ''.pdf'') = ''.pdf''"
  "filepath_Ext (p @ ''.PDF'') = ''.PDF''"
  "filepath_Ext (p @ ''.docx'') = ''.docx''"
  "filepath_Ext (p @ ''.txt'') = ''.txt''"
  "filepath_Ext (p @ ''.pdfx'') = ''.pdfx''"
  by (simp_all add: filepath_Ext_def slash_def dot_def)

lemma lower_simps:
  "ToLower ul ''.pdf'' = ''.pdf''"
  "ToLower ul ''.PDF'' = ''.pdf''"
  "ToLower ul ''.docx'' = ''.docx''"
  "ToLower ul ''.txt'' = ''.txt''"
  "ToLower ul ''.pdfx'' = ''.pdfx''"
  by code_simp+

lemma t: "parse_extensions ul False ''pdf,docx'' = [''.pdf'', ''.docx'']"
  by code_simp

lemma fold_match_last:
  "fold_match pat t \<Longrightarrow> pat \<noteq> [] \<Longrightarrow>
   t \<noteq> [] \<and> (ascii_lower (last t) = last pat \<or> last t = CHR 0xBF \<or> last t = CHR 0xAA)"
proof (induction pat arbitrary: t)
  case Nil
  then show ?case by simp
next
  case (Cons p ps)
  from Cons.prems(1) obtain c cs where t: "t = c # cs" by (cases t) auto
  show ?case
  proof (cases "ps = []")
    case True
    with Cons.prems(1) t show ?thesis
      by (cases cs; cases "tl cs") auto
  next
    case False
    from Cons.prems(1) t consider
        (one) "fold_match ps cs"
      | (two) "fold_match ps (drop 2 t)"
      | (three) "fold_match ps (drop 3 t)"
      by auto
    then show ?thesis
    proof cases
      case one
      from Cons.IH[OF one False] t False show ?thesis by auto
    next
      case two
      from Cons.IH[OF two False] have ne: "drop 2 t \<noteq> []"
        and l: "ascii_lower (last (drop 2 t)) = last ps \<or> last (drop 2 t) = CHR 0xBF
                \<or> last (drop 2 t) = CHR 0xAA" by auto
      from ne have "last (drop 2 t) = last t" by (simp add: last_drop)
      with l ne False show ?thesis by auto
    next
      case three
      from Cons.IH[OF three False] have ne: "drop 3 t \<noteq> []"
        and l: "ascii_lower (last (drop 3 t)) = last ps \<or> last (drop 3 t) = CHR 0xBF
                \<or> last (drop 3 t) = CHR 0xAA" by auto
      from ne have "last (drop 3 t) = last t" by (simp add: last_drop)
      with l ne False show ?thesis by auto
    qed
  qed
qed

lemma html_rejected: "\<not> fileExtPattern_MatchString (p @ ''.html'')"
proof
  assume "fileExtPattern_MatchString (p @ ''.html'')"
  then obtain alt n where alt: "alt \<in> set fileExtPattern_alternatives"
    and m: "fold_match (dot # alt) (drop n (p @ ''.html''))"
    unfolding fileExtPattern_MatchString_def list_ex_iff by blast
  from fold_match_last[OF m] have ne: "drop n (p @ ''.html'') \<noteq> []"
    and l: "ascii_lower (last (drop n (p @ ''.html''))) = last (dot # alt)
            \<or> last (drop n (p @ ''.html'')) = CHR 0xBF \<or> last (drop n (p @ ''.html'')) = CHR 0xAA"
    by auto
  from ne have "n < length (p @ ''.html'')" by (simp del: drop_append)
  then have "last (drop n (p @ ''.html'')) = last (p @ ''.html'')" by (rule last_drop)
  then have "last (drop n (p @ ''.html'')) = CHR ''l''" by simp
  with l have "ascii_lower (CHR ''l'') = last (dot # alt)" by auto
  moreover have "ascii_lower (CHR ''l'') = CHR ''l''" by code_simp
  ultimately have "last (dot # alt) = CHR ''l''" by simp
  with alt show False
    by (auto simp: fileExtPattern_alternatives_def)
qed

lemma zip_matches: "fileExtPattern_MatchString (p @ ''.zip'')"
proof -
  have "fold_match (dot # ''zip'') (drop (length p) (p @ ''.zip''))"
    by (simp add: dot_def ascii_lower_def)
  moreover have "length p \<in> set [0..<Suc (length (p @ ''.zip''))]" by simp
  moreover have "''zip'' \<in> set fileExtPattern_alternatives"
    by (simp add: fileExtPattern_alternatives_def)
  ultimately show ?thesis
    unfolding fileExtPattern_MatchString_def list_ex_iff by blast
qed


text \<open>
  Claim C7. With the extension list \<^verbatim>\<open>pdf,docx\<close> as \<^verbatim>\<open>parseFlags\<close> builds it, a link whose
  path ends in \<^verbatim>\<open>.pdf\<close>, \<^verbatim>\<open>.PDF\<close> or \<^verbatim>\<open>.docx\<close> passes and one whose path ends in \<^verbatim>\<open>.txt\<close> or
  \<^verbatim>\<open>.pdfx\<close> is rejected; in \<^verbatim>\<open>--all\<close> mode a path ending in \<^verbatim>\<open>.zip\<close> passes and one ending
  in \<^verbatim>\<open>.html\<close> is rejected. In list mode a link passes exactly when the lower-cased
  extension of its path is an entry of the list.
\<close>

theorem extension_filtering:
  fixes world :: env and config :: Config and linkURL :: url and p :: string
  defines "listed \<equiv> config\<lparr>Exts := parse_extensions (unicode_lower world) False ''pdf,docx'',
                            AllFiles := False\<rparr>"
    and "every \<equiv> config\<lparr>AllFiles := True\<rparr>"
  shows "extension_matches world listed (linkURL\<lparr>Path := p @ ''.pdf''\<rparr>)
       \<and> extension_matches world listed (linkURL\<lparr>Path := p @ ''.PDF''\<rparr>)
       \<and> extension_matches world listed (linkURL\<lparr>Path := p @ ''.docx''\<rparr>)
       \<and> \<not> extension_matches world listed (linkURL\<lparr>Path := p @ ''.txt''\<rparr>)
       \<and> \<not> extension_matches world listed (linkURL\<lparr>Path := p @ ''.pdfx''\<rparr>)
       \<and> extension_matches world every (linkURL\<lparr>Path := p @ ''.zip''\<rparr>)
       \<and> \<not> extension_matches world every (linkURL\<lparr>Path := p @ ''.html''\<rparr>)
       \<and> (extension_matches world (config\<lparr>AllFiles := False\<rparr>) linkURL
            = (ToLower (unicode_lower world) (filepath_Ext (Path linkURL)) \<in> set (Exts config)))"
  by (simp add: listed_def every_def extension_matches_def link_ext_def ext_simps lower_simps t
        zip_matches html_rejected list_ex_iff)

theorem extension_filtering_witness:
  "extension_matches example_world
     (parseFlags (unicode_lower example_world) (default_flags\<lparr>flag_ext := ''pdf,docx''\<rparr>) [''http://example.com/page''])
     \<lparr>Path = ''/files/a'' @ ''.PDF'', String_of = ''http://example.com/files/a.PDF''\<rparr>"
  using extension_filtering[where world = example_world
     and config = "parseFlags (unicode_lower example_world) (default_flags\<lparr>flag_ext := ''pdf,docx''\<rparr>) [''http://example.com/page'']"
     and linkURL = "\<lparr>Path = ''/files/a.PDF'', String_of = ''http://example.com/files/a.PDF''\<rparr>"
     and p = "''/files/a''"]
  by (simp add: parseFlags_def default_flags_def)

subsection \<open>The page with two anchors\<close>

text \<open>
  Claim C8. When the page is fetched and holds exactly the anchors
  \<^verbatim>\<open><a href="/a.pdf">Report One</a>\<close> and \<^verbatim>\<open><a href="/a.pdf">Duplicate</a>\<close>, and \<^verbatim>\<open>/a.pdf\<close>
  resolves to a URL with the path \<^verbatim>\<open>/a.pdf\<close>, extraction with the default flags yields
  exactly one candidate, named \<^verbatim>\<open>Report_One.pdf\<close>.
\<close>

theorem two_anchor_page:
  assumes "new_request world u = None"
    and "client_do world 30 u defaultUserAgent = Inr resp"
    and "StatusCode resp = 200"
    and "new_document world (Body resp) =
           Inr [\<lparr>href = Some ''/a.pdf'', anchor_text = ''Report One''\<rparr>,
                \<lparr>href = Some ''/a.pdf'', anchor_text = ''Duplicate''\<rparr>]"
    and "url_parse world u = Inr baseURL"
    and "url_resolve world baseURL ''/a.pdf'' = Inr linkURL"
    and "Path linkURL = ''/a.pdf''"
  shows "extractLinks world (parseFlags (unicode_lower world) default_flags [u])
           = (Inr [\<lparr>Name = ''Report_One.pdf'', LinkURL = String_of linkURL\<rparr>], [u])"
proof -
  let ?ul = "unicode_lower world"
  have exts: "parse_extensions ?ul False ''pdf,xlsx,xls,xlsm'' = [''.pdf'', ''.xlsx'', ''.xls'', ''.xlsm'']"
    by code_simp
  have ext: "link_ext world linkURL = ''.pdf''"
    using assms(7) ext_simps(1)[of "''/a''"] by (simp add: link_ext_def lower_simps)
  have san: "sanitizeFilename ''Report One'' = Inr ''Report_One''" by code_simp
  have trim: "TrimSpace ''Report One'' = ''Report One''" by code_simp
  have suf: "\<not> HasSuffix (ToLower ?ul ''Report_One'') ''.pdf''" by code_simp
  have res: "resolve_href world baseURL \<lparr>href = Some ''/a.pdf'', anchor_text = t\<rparr> = Some linkURL" for t
    using assms(6) by (simp add: resolve_href_def HasPrefix_def)
  have name: "link_name world \<lparr>href = Some ''/a.pdf'', anchor_text = ''Report One''\<rparr> linkURL
                = Inr ''Report_One.pdf''"
    using suf by (simp add: link_name_def trim san ext)
  show ?thesis
    using assms(1-5)
    by (simp add: extractLinks_def links_of_response_def parseFlags_def default_flags_def exts
          compile_include_def visit_def res name extension_matches_def ext include_matches_def
          Let_def)
qed


theorem two_anchor_page_witness:
  "extractLinks example_world
     (parseFlags (unicode_lower example_world) default_flags [''http://example.com/page''])
   = (Inr [\<lparr>Name = ''Report_One.pdf'', LinkURL = ''http://example.com/a.pdf''\<rparr>],
      [''http://example.com/page''])"
  using two_anchor_page[where world = example_world and u = "''http://example.com/page''"
      and resp = "\<lparr>StatusCode = 200, Body = ''<html>''\<rparr>"
      and baseURL = "\<lparr>Path = ''/page'', String_of = ''http://example.com/page''\<rparr>"
      and linkURL = "\<lparr>Path = ''/a.pdf'', String_of = ''http://example.com/a.pdf''\<rparr>"]
  by (simp add: example_world_def)

subsection \<open>An include pattern that does not compile\<close>

text \<open>
  Claim C5, as stated, fails: with the pattern \<^verbatim>\<open>[\<close> the invalid-pattern error is
  returned after the GET for the page has been issued.
\<close>

theorem invalid_pattern_after_fetch:
  "Include bad_pattern_config \<noteq> []
   \<and> regexp_compile example_world (Include bad_pattern_config) = Inl ''missing closing ]''
   \<and> extractLinks example_world bad_pattern_config
       = (Inl (InvalidPattern ''missing closing ]''), [''http://example.com/page''])"
  by (simp add: bad_pattern_config_def parseFlags_def default_flags_def example_world_def
        extractLinks_def links_of_response_def compile_include_def)

text \<open>
  Claim C5, amended. If the include pattern does not compile, extraction fails as a
  whole, and its result is determined by the steps before the compilation, in their
  order: the error of building the request, with no GET issued; otherwise, with the GET
  for the page issued, the transport error, the error for a status other than 200, the
  error of parsing the document or the error of parsing the base URL; and the
  invalid-pattern error only when all these steps have succeeded.
\<close>

theorem invalid_include_pattern:
  assumes "Include config \<noteq> []"
    and "regexp_compile world (Include config) = Inl msg"
  shows "extractLinks world config
           = (case new_request world (URL config) of
                Some err \<Rightarrow> (Inl err, [])
              | None \<Rightarrow>
                  ((case client_do world 30 (URL config) (UserAgent config) of
                      Inl err \<Rightarrow> Inl err
                    | Inr resp \<Rightarrow>
                        if StatusCode resp \<noteq> 200 then Inl (HTTPStatus (StatusCode resp))
                        else (case new_document world (Body resp) of
                                Inl err \<Rightarrow> Inl err
                              | Inr anchors \<Rightarrow>
                                  (case url_parse world (URL config) of
                                     Inl err \<Rightarrow> Inl err
                                   | Inr baseURL \<Rightarrow> Inl (InvalidPattern msg)))),
                   [URL config]))
       \<and> (\<exists>err. fst (extractLinks world config) = Inl err)
       \<and> (page_fetched world config \<longrightarrow>
            extractLinks world config = (Inl (InvalidPattern msg), [URL config]))
       \<and> (new_request world (URL config) = None \<longrightarrow>
            snd (extractLinks world config) = [URL config])"
  using assms
  by (auto simp: extractLinks_def links_of_response_def compile_include_def page_fetched_def
        split: option.splits sum.splits)

theorem invalid_include_pattern_witness:
  "Include bad_pattern_config \<noteq> []
   \<and> regexp_compile example_world (Include bad_pattern_config) = Inl ''missing closing ]''
   \<and> page_fetched example_world bad_pattern_config
   \<and> extractLinks example_world bad_pattern_config
       = (Inl (InvalidPattern ''missing closing ]''), [URL bad_pattern_config])
   \<and> regexp_compile not_found_world (Include bad_pattern_config) = Inl ''missing closing ]''
   \<and> extractLinks not_found_world bad_pattern_config
       = (Inl (HTTPStatus 404), [URL bad_pattern_config])"
proof -
  have a: "Include bad_pattern_config \<noteq> []"
    by (simp add: bad_pattern_config_def parseFlags_def default_flags_def)
  have b: "regexp_compile example_world (Include bad_pattern_config) = Inl ''missing closing ]''"
    by (simp add: example_world_def)
  have b': "regexp_compile not_found_world (Include bad_pattern_config) = Inl ''missing closing ]''"
    by (simp add: example_world_def not_found_world_def)
  have c: "page_fetched example_world bad_pattern_config"
    by (simp add: page_fetched_def example_world_def)
  have d: "extractLinks not_found_world bad_pattern_config
       = (Inl (HTTPStatus 404), [URL bad_pattern_config])"
    using invalid_include_pattern[OF a b']
    by (simp add: not_found_world_def example_world_def)
  from invalid_include_pattern[OF a b] a b b' c d show ?thesis by blast
qed

subsection \<open>No candidates\<close>

text \<open>
  Claim C10. If a URL was given and extraction succeeds with no candidate, \<^verbatim>\<open>main\<close>
  prints the no-matching-files message and ends with exit status 0; it neither creates
  the output directory nor starts a download, whatever the list-only flag.
\<close>

theorem no_candidates:
  assumes "URL config \<noteq> []"
    and "extractLinks world config = (Inr [], gets)"
  shows "main world config
           = \<lparr>effects = map HTTPGet gets @ [Stdout (''No matching files found.'' @ newline)],
              exit_status = 0\<rparr>
       \<and> (\<forall>dir. MkdirAll dir \<notin> set (effects (main world config)))
       \<and> (\<forall>links. DownloadAll links \<notin> set (effects (main world config)))"
  using assms by (auto simp: main_def)

theorem no_candidates_witness:
  "ListOnly (parseFlags (\<lambda>s. s) default_flags [''http://example.com/page'']) = False
   \<and> extractLinks empty_page_world (parseFlags (\<lambda>s. s) default_flags [''http://example.com/page''])
       = (Inr [], [''http://example.com/page''])
   \<and> main empty_page_world (parseFlags (\<lambda>s. s) default_flags [''http://example.com/page''])
       = \<lparr>effects = [HTTPGet ''http://example.com/page'',
                       Stdout (''No matching files found.'' @ newline)],
          exit_status = 0\<rparr>"
proof -
  let ?config = "parseFlags (\<lambda>s. s) default_flags [''http://example.com/page'']"
  have u: "URL ?config \<noteq> []" by (simp add: parseFlags_def)
  have l: "ListOnly ?config = False" by (simp add: parseFlags_def default_flags_def)
  have e: "extractLinks empty_page_world ?config = (Inr [], [''http://example.com/page''])"
    by (simp add: extractLinks_def links_of_response_def compile_include_def parseFlags_def
          default_flags_def empty_page_world_def example_world_def)
  from no_candidates[OF u e] l e show ?thesis by simp
qed

subsection \<open>The outcome of a download\<close>

text \<open>
  Claim C4, as stated, fails: a response with status 204, with no transport error and
  no error on disk, is recorded as a failure, although 204 is a 2xx status.
\<close>

theorem no_content_is_failure:
  "fst (downloadFile no_content_world {} 300 ''http://example.com/a.pdf'' ''downloads/a.pdf''
          defaultUserAgent) = Some (HTTPStatus 204)
   \<and> \<not> spec_download_fails no_content_world 300 ''http://example.com/a.pdf'' ''downloads/a.pdf''
          defaultUserAgent
   \<and> record_outcome (fst (downloadFile no_content_world {} 300 ''http://example.com/a.pdf''
            ''downloads/a.pdf'' defaultUserAgent)) \<lparr>successCount = 0, failCount = 0\<rparr>
       = \<lparr>successCount = 0, failCount = 1\<rparr>"
  by (simp add: no_content_world_def example_world_def downloadFile_def record_outcome_def
        spec_download_fails_def)

text \<open>
  Claim C4, amended. A download is recorded as failed if and only if the request cannot
  be built, the transport fails, the status is not 200, or the file cannot be created
  or written; every response with status 200 whose body is written is recorded as a
  success.
\<close>

theorem download_outcome:
  "(fst (downloadFile world fs client url filepath userAgent) \<noteq> None)
     = download_fails world client url filepath userAgent
   \<and> record_outcome (fst (downloadFile world fs client url filepath userAgent)) t
     = (if download_fails world client url filepath userAgent
        then t\<lparr>failCount := failCount t + 1\<rparr> else t\<lparr>successCount := successCount t + 1\<rparr>)"
  by (auto simp: downloadFile_def download_fails_def record_outcome_def
        split: option.splits sum.splits)

theorem download_outcome_witness:
  "\<not> download_fails example_world 300 ''http://example.com/a.pdf'' ''downloads/a.pdf'' defaultUserAgent
   \<and> fst (downloadFile example_world {} 300 ''http://example.com/a.pdf'' ''downloads/a.pdf''
            defaultUserAgent) = None
   \<and> record_outcome (fst (downloadFile example_world {} 300 ''http://example.com/a.pdf''
            ''downloads/a.pdf'' defaultUserAgent)) \<lparr>successCount = 0, failCount = 0\<rparr>
       = \<lparr>successCount = 1, failCount = 0\<rparr>"
proof -
  have ok: "\<not> download_fails example_world 300 ''http://example.com/a.pdf'' ''downloads/a.pdf''
              defaultUserAgent"
    by (simp add: download_fails_def example_world_def)
  from download_outcome[of example_world "{}" 300 "''http://example.com/a.pdf''"
      "''downloads/a.pdf''" defaultUserAgent "\<lparr>successCount = 0, failCount = 0\<rparr>"] ok
  show ?thesis by auto
qed



subsection \<open>Deduplication\<close>

lemma accepted_same_string:
  assumes "path_determined world baseURL"
    and "resolve_href world baseURL s1 = Some u1" and "resolve_href world baseURL s2 = Some u2"
    and "String_of u1 = String_of u2"
  shows "accepted world config includePattern u1 = accepted world config includePattern u2"
proof -
  from assms(2) obtain h1 where "url_resolve world baseURL h1 = Inr u1"
    by (auto simp: resolve_href_def split: option.splits if_splits sum.splits)
  moreover from assms(3) obtain h2 where "url_resolve world baseURL h2 = Inr u2"
    by (auto simp: resolve_href_def split: option.splits if_splits sum.splits)
  ultimately have "Path u1 = Path u2"
    using assms(1,4) unfolding path_determined_def by blast
  with assms(4) show ?thesis
    by (simp add: accepted_def extension_matches_def link_ext_def)
qed

lemma visit_cases:
  assumes "visit world config baseURL includePattern s st = Inr st'"
  obtains (skip) "st' = st"
      and "\<forall>u. resolve_href world baseURL s = Some u \<and> accepted world config includePattern u
              \<longrightarrow> String_of u \<in> snd st"
    | (add) u name where "resolve_href world baseURL s = Some u"
      and "accepted world config includePattern u" and "String_of u \<notin> snd st"
      and "link_name world s u = Inr name"
      and "st' = (fst st @ [\<lparr>Name = name, LinkURL = String_of u\<rparr>], insert (String_of u) (snd st))"
proof (cases "resolve_href world baseURL s")
  case None
  with assms have "st' = st" by (simp add: visit_def)
  with None show ?thesis by (intro skip) auto
next
  case (Some u)
  show ?thesis
  proof (cases "String_of u \<in> snd st \<or> \<not> accepted world config includePattern u")
    case True
    with assms Some have "st' = st"
      by (auto simp: visit_def Let_def accepted_def split: if_splits)
    with True Some show ?thesis by (intro skip) auto
  next
    case False
    with assms Some obtain name where "link_name world s u = Inr name"
      and "st' = (fst st @ [\<lparr>Name = name, LinkURL = String_of u\<rparr>], insert (String_of u) (snd st))"
      by (auto simp: visit_def Let_def accepted_def split: sum.splits)
    with False Some show ?thesis by (intro add[of u name]) auto
  qed
qed

lemma visit_each_inv:
  assumes inv: "each_inv world config baseURL includePattern visited st"
    and v: "visit world config baseURL includePattern s st = Inr st'"
  shows "each_inv world config baseURL includePattern (visited @ [s]) st'"
  using v
proof (cases rule: visit_cases)
  case skip
  with inv show ?thesis
    unfolding each_inv_def all_kept_def all_from_anchors_def by auto
next
  case (add u name)
  from inv have i1: "snd st = set (map LinkURL (fst st))" and i2: "distinct (map LinkURL (fst st))"
    and i3: "all_kept world config baseURL includePattern visited (snd st)"
    and i4: "all_from_anchors world config baseURL includePattern visited (fst st)"
    unfolding each_inv_def by auto
  from i1 have e: "snd st' = set (map LinkURL (fst st'))" by (simp add: add(5))
  from i1 i2 add(3) have d: "distinct (map LinkURL (fst st'))" by (simp add: add(5))
  from i3 add(1) have k: "all_kept world config baseURL includePattern (visited @ [s]) (snd st')"
    unfolding all_kept_def by (auto simp: add(5))
  from i4 add(1,2,4) have f: "all_from_anchors world config baseURL includePattern (visited @ [s]) (fst st')"
    unfolding all_from_anchors_def by (auto simp: add(5))
  from e d k f show ?thesis unfolding each_inv_def by blast
qed

lemma first_occurrence_extend:
  assumes "first_occurrence world config baseURL includePattern visited link"
  shows "first_occurrence world config baseURL includePattern (visited @ [s]) link"
proof -
  from assms obtain before a after u where
    v: "visited = before @ a # after" and
    r: "resolve_href world baseURL a = Some u" "accepted world config includePattern u"
       "String_of u = LinkURL link" "link_name world a u = Inr (Name link)"
       "\<forall>s'\<in>set before. \<forall>u'. resolve_href world baseURL s' = Some u'
              \<longrightarrow> String_of u' \<noteq> LinkURL link"
    unfolding first_occurrence_def by blast
  from v have "visited @ [s] = before @ a # (after @ [s])" by simp
  with r show ?thesis unfolding first_occurrence_def by blast
qed

lemma visit_first_inv:
  assumes pd: "path_determined world baseURL"
    and inv: "first_inv world config baseURL includePattern visited st"
    and v: "visit world config baseURL includePattern s st = Inr st'"
  shows "first_inv world config baseURL includePattern (visited @ [s]) st'"
proof -
  from inv have ei: "each_inv world config baseURL includePattern visited st"
    and fo: "\<forall>link\<in>set (fst st). first_occurrence world config baseURL includePattern visited link"
    unfolding first_inv_def by auto
  from visit_each_inv[OF ei v]
  have ei': "each_inv world config baseURL includePattern (visited @ [s]) st'" .
  from fo have old: "\<forall>link\<in>set (fst st).
      first_occurrence world config baseURL includePattern (visited @ [s]) link"
    by (auto intro: first_occurrence_extend)
  have "\<forall>link\<in>set (fst st'). first_occurrence world config baseURL includePattern (visited @ [s]) link"
    using v
  proof (cases rule: visit_cases)
    case skip
    with old show ?thesis by simp
  next
    case (add u name)
    let ?link = "\<lparr>Name = name, LinkURL = String_of u\<rparr>"
    from ei have kept: "all_kept world config baseURL includePattern visited (snd st)"
      unfolding each_inv_def by auto
    have fresh: "\<forall>s'\<in>set visited. \<forall>u'. resolve_href world baseURL s' = Some u'
              \<longrightarrow> String_of u' \<noteq> String_of u"
    proof (intro ballI allI impI notI)
      fix s' u'
      assume s': "s' \<in> set visited" and r: "resolve_href world baseURL s' = Some u'"
        and e: "String_of u' = String_of u"
      from accepted_same_string[OF pd r add(1) e] add(2)
      have "accepted world config includePattern u'" by simp
      with kept s' r have "String_of u' \<in> snd st" unfolding all_kept_def by blast
      with e add(3) show False by simp
    qed
    have "first_occurrence world config baseURL includePattern (visited @ [s]) ?link"
      unfolding first_occurrence_def
      using add(1,2,4) fresh
      by (intro exI[of _ visited] exI[of _ s] exI[of _ "[]"] exI[of _ u]) simp
    with old show ?thesis by (auto simp: add(5))
  qed
  with ei' show ?thesis unfolding first_inv_def by blast
qed

lemma each_inv_run:
  "each_inv world config baseURL includePattern visited st \<Longrightarrow>
   each world config baseURL includePattern anchors st = Inr st' \<Longrightarrow>
   each_inv world config baseURL includePattern (visited @ anchors) st'"
proof (induction anchors arbitrary: visited st)
  case Nil
  then show ?case by simp
next
  case (Cons s rest)
  from Cons.prems(2) obtain st1 where
    v: "visit world config baseURL includePattern s st = Inr st1"
    and r: "each world config baseURL includePattern rest st1 = Inr st'"
    by (auto split: sum.splits)
  from visit_each_inv[OF Cons.prems(1) v]
  have "each_inv world config baseURL includePattern (visited @ [s]) st1" .
  from Cons.IH[OF this r] show ?case by simp
qed

lemma first_inv_run:
  assumes pd: "path_determined world baseURL"
  shows "first_inv world config baseURL includePattern visited st \<Longrightarrow>
         each world config baseURL includePattern anchors st = Inr st' \<Longrightarrow>
         first_inv world config baseURL includePattern (visited @ anchors) st'"
proof (induction anchors arbitrary: visited st)
  case Nil
  then show ?case by simp
next
  case (Cons s rest)
  from Cons.prems(2) obtain st1 where
    v: "visit world config baseURL includePattern s st = Inr st1"
    and r: "each world config baseURL includePattern rest st1 = Inr st'"
    by (auto split: sum.splits)
  from visit_first_inv[OF pd Cons.prems(1) v]
  have "first_inv world config baseURL includePattern (visited @ [s]) st1" .
  from Cons.IH[OF this r] show ?case by simp
qed

text \<open>
  Claim C3. Whenever \<^verbatim>\<open>extractLinks\<close> returns a candidate list for a fetched page: no two
  candidates have the same resolved URL; every anchor that resolves and passes the
  filters has its URL among the candidates; every candidate stems from an anchor that
  resolves to its URL and passes the filters; and, URL resolution being such that the
  string of a URL determines its path, every candidate stems from the first anchor in
  document order that resolves to its URL: its name is derived from that anchor, and no
  earlier anchor resolves to the same URL.
\<close>

theorem extracted_links_deduplicated:
  assumes "client_do world 30 (URL config) (UserAgent config) = Inr resp"
    and "new_document world (Body resp) = Inr anchors"
    and "url_parse world (URL config) = Inr baseURL"
    and "compile_include world config = Inr includePattern"
    and "extractLinks world config = (Inr links, gets)"
  shows "distinct (map LinkURL links)
       \<and> (\<forall>s\<in>set anchors. \<forall>u.
            resolve_href world baseURL s = Some u \<and> accepted world config includePattern u
            \<longrightarrow> String_of u \<in> set (map LinkURL links))
       \<and> (\<forall>link\<in>set links. \<exists>s\<in>set anchors. \<exists>u.
            resolve_href world baseURL s = Some u
            \<and> accepted world config includePattern u
            \<and> String_of u = LinkURL link
            \<and> link_name world s u = Inr (Name link))
       \<and> (path_determined world baseURL \<longrightarrow>
            (\<forall>link\<in>set links. \<exists>before s after u.
               anchors = before @ s # after
               \<and> resolve_href world baseURL s = Some u
               \<and> accepted world config includePattern u
               \<and> String_of u = LinkURL link
               \<and> link_name world s u = Inr (Name link)
               \<and> (\<forall>s'\<in>set before. \<forall>u'. resolve_href world baseURL s' = Some u'
                     \<longrightarrow> String_of u' \<noteq> LinkURL link)))"
proof -
  from assms obtain st where
    e: "each world config baseURL includePattern anchors ([], {}) = Inr st" and l: "links = fst st"
    by (auto simp: extractLinks_def links_of_response_def split: option.splits sum.splits if_splits)
  have start: "each_inv world config baseURL includePattern [] ([], {})"
    by (simp add: each_inv_def all_kept_def all_from_anchors_def)
  from each_inv_run[OF start e] have ei: "each_inv world config baseURL includePattern anchors st"
    by simp
  from ei l have d: "distinct (map LinkURL links)" by (simp add: each_inv_def)
  from ei l have k: "all_kept world config baseURL includePattern anchors (set (map LinkURL links))"
    unfolding each_inv_def by metis
  from ei l have f: "all_from_anchors world config baseURL includePattern anchors links"
    by (simp add: each_inv_def)
  have "\<forall>link\<in>set links. first_occurrence world config baseURL includePattern anchors link"
    if pd: "path_determined world baseURL"
  proof -
    from start have "first_inv world config baseURL includePattern [] ([], {})"
      by (simp add: first_inv_def)
    from first_inv_run[OF pd this e] l show ?thesis
      by (simp add: first_inv_def)
  qed
  with d k f show ?thesis
    unfolding first_occurrence_def all_kept_def all_from_anchors_def by blast
qed


lemma four_anchor_page_value:
  "extractLinks four_anchor_world
     (parseFlags (unicode_lower four_anchor_world) default_flags [''http://example.com/page''])
   = (Inr [\<lparr>Name = ''Report_One.pdf'', LinkURL = ''http://example.com/a.pdf''\<rparr>,
           \<lparr>Name = ''Other.pdf'', LinkURL = ''http://example.com/b.pdf''\<rparr>],
      [''http://example.com/page''])"
  by code_simp

theorem extracted_links_deduplicated_witness:
  "extractLinks four_anchor_world
     (parseFlags (unicode_lower four_anchor_world) default_flags [''http://example.com/page''])
     = (Inr [\<lparr>Name = ''Report_One.pdf'', LinkURL = ''http://example.com/a.pdf''\<rparr>,
             \<lparr>Name = ''Other.pdf'', LinkURL = ''http://example.com/b.pdf''\<rparr>],
        [''http://example.com/page''])
   \<and> path_determined four_anchor_world \<lparr>Path = ''/page'', String_of = ''http://example.com/page''\<rparr>
   \<and> distinct (map LinkURL [\<lparr>Name = ''Report_One.pdf'', LinkURL = ''http://example.com/a.pdf''\<rparr>,
                             \<lparr>Name = ''Other.pdf'', LinkURL = ''http://example.com/b.pdf''\<rparr>])
   \<and> (\<exists>before s after u.
         [\<lparr>href = Some ''/home.html'', anchor_text = ''Home''\<rparr>,
          \<lparr>href = Some ''/a.pdf'', anchor_text = ''Report One''\<rparr>,
          \<lparr>href = Some ''/b.pdf'', anchor_text = ''Other''\<rparr>,
          \<lparr>href = Some ''/a.pdf'', anchor_text = ''Duplicate''\<rparr>] = before @ s # after
         \<and> before = [\<lparr>href = Some ''/home.html'', anchor_text = ''Home''\<rparr>]
         \<and> resolve_href four_anchor_world
               \<lparr>Path = ''/page'', String_of = ''http://example.com/page''\<rparr> s = Some u
         \<and> String_of u = ''http://example.com/a.pdf''
         \<and> link_name four_anchor_world s u = Inr ''Report_One.pdf'')"
proof -
  let ?world = four_anchor_world
  let ?config = "parseFlags (unicode_lower four_anchor_world) default_flags [''http://example.com/page'']"
  let ?base = "\<lparr>Path = ''/page'', String_of = ''http://example.com/page''\<rparr>"
  let ?l1 = "\<lparr>Name = ''Report_One.pdf'', LinkURL = ''http://example.com/a.pdf''\<rparr>"
  let ?l2 = "\<lparr>Name = ''Other.pdf'', LinkURL = ''http://example.com/b.pdf''\<rparr>"
  let ?home = "\<lparr>href = Some ''/home.html'', anchor_text = ''Home''\<rparr>"
  let ?a1 = "\<lparr>href = Some ''/a.pdf'', anchor_text = ''Report One''\<rparr>"
  let ?b = "\<lparr>href = Some ''/b.pdf'', anchor_text = ''Other''\<rparr>"
  let ?a2 = "\<lparr>href = Some ''/a.pdf'', anchor_text = ''Duplicate''\<rparr>"
  let ?anchors = "[?home, ?a1, ?b, ?a2]"
  have x: "extractLinks ?world ?config = (Inr [?l1, ?l2], [''http://example.com/page''])"
    using four_anchor_page_value by simp
  have c: "client_do ?world 30 (URL ?config) (UserAgent ?config)
             = Inr \<lparr>StatusCode = 200, Body = ''<html>''\<rparr>"
    by (simp add: four_anchor_world_def example_world_def)
  have n: "new_document ?world (Body \<lparr>StatusCode = 200, Body = ''<html>''\<rparr>) = Inr ?anchors"
    by (simp add: four_anchor_world_def example_world_def)
  have b: "url_parse ?world (URL ?config) = Inr ?base"
    by (simp add: four_anchor_world_def example_world_def parseFlags_def)
  have i: "compile_include ?world ?config = Inr None"
    by (simp add: compile_include_def parseFlags_def default_flags_def)
  have pd: "path_determined ?world ?base"
    by (simp add: path_determined_def four_anchor_world_def example_world_def)
  have res: "resolve_href ?world ?base \<lparr>href = Some h, anchor_text = t\<rparr>
               = (if h = [] \<or> HasPrefix h ''#'' \<or> HasPrefix h ''javascript:'' then None
                  else Some \<lparr>Path = h, String_of = ''http://example.com'' @ h\<rparr>)" for h t
    by (simp add: resolve_href_def four_anchor_world_def example_world_def)
  from extracted_links_deduplicated[OF c n b i x] pd
  have d: "distinct (map LinkURL [?l1, ?l2])"
    and "\<forall>link\<in>set [?l1, ?l2]. \<exists>before s after u.
               ?anchors = before @ s # after
               \<and> resolve_href ?world ?base s = Some u
               \<and> accepted ?world ?config None u
               \<and> String_of u = LinkURL link
               \<and> link_name ?world s u = Inr (Name link)
               \<and> (\<forall>s'\<in>set before. \<forall>u'. resolve_href ?world ?base s' = Some u'
                     \<longrightarrow> String_of u' \<noteq> LinkURL link)"
    by blast+
  then obtain before s after u where
    dec: "?anchors = before @ s # after"
    and r: "resolve_href ?world ?base s = Some u" "String_of u = ''http://example.com/a.pdf''"
           "link_name ?world s u = Inr ''Report_One.pdf''"
    and first: "\<forall>s'\<in>set before. \<forall>u'. resolve_href ?world ?base s' = Some u'
                     \<longrightarrow> String_of u' \<noteq> ''http://example.com/a.pdf''"
    by auto
  have ra: "resolve_href ?world ?base ?a1 = Some \<lparr>Path = ''/a.pdf'', String_of = ''http://example.com/a.pdf''\<rparr>"
    by (simp add: res HasPrefix_def)
  have rh: "resolve_href ?world ?base ?home
              = Some \<lparr>Path = ''/home.html'', String_of = ''http://example.com/home.html''\<rparr>"
    by (simp add: res HasPrefix_def)
  from first ra have "?a1 \<notin> set before" by auto
  moreover from r(1,2) rh have "s \<noteq> ?home" by auto
  ultimately have "before = [?home]"
    using dec by (auto simp: Cons_eq_append_conv)
  with dec r x pd d show ?thesis by blast
qed

end
